theory Spec2Isabelle
  imports Main "HOL-Library.Sublist" "HOL-Library.Char_ord" "HOL-Library.List_Lexorder"
begin

section \<open>Python strings\<close>

text \<open>
  File names and documents are \<open>string\<close>s. The scripts only ever compare them with
  ASCII keywords, so \<open>str.lower\<close> and \<open>str.upper\<close> are modelled on the ASCII
  letters; every other character is left as it is.
\<close>

definition ascii_uppercase :: string where
  "ascii_uppercase = ''ABCDEFGHIJKLMNOPQRSTUVWXYZ''"

definition ascii_lowercase :: string where
  "ascii_lowercase = ''abcdefghijklmnopqrstuvwxyz''"

definition lower_char :: "char \<Rightarrow> char" where
  "lower_char c = (case map_of (zip ascii_uppercase ascii_lowercase) c of Some l \<Rightarrow> l | None \<Rightarrow> c)"

definition upper_char :: "char \<Rightarrow> char" where
  "upper_char c = (case map_of (zip ascii_lowercase ascii_uppercase) c of Some u \<Rightarrow> u | None \<Rightarrow> c)"

text \<open>\<open>s.lower()\<close> and \<open>s.upper()\<close>.\<close>

definition lower :: "string \<Rightarrow> string" where
  "lower s = map lower_char s"

definition upper :: "string \<Rightarrow> string" where
  "upper s = map upper_char s"

text \<open>\<open>sub in s\<close>: \<open>sub\<close> occurs in \<open>s\<close> as a contiguous run of characters.\<close>

fun str_in :: "string \<Rightarrow> string \<Rightarrow> bool" where
  "str_in sub [] = (sub = [])"
| "str_in sub (c # cs) = (prefix sub (c # cs) \<or> str_in sub cs)"

text \<open>\<open>any(keyword in s for keyword in keywords)\<close>.\<close>

definition any_in :: "string list \<Rightarrow> string \<Rightarrow> bool" where
  "any_in keywords s = list_ex (\<lambda>keyword. str_in keyword s) keywords"

text \<open>
  \<open>s.find(sub)\<close>: the lowest index at which \<open>sub\<close> starts in \<open>s\<close>, and \<open>-1\<close> when
  there is none.
\<close>

fun find_from :: "nat \<Rightarrow> string \<Rightarrow> string \<Rightarrow> int" where
  "find_from i [] sub = (if sub = [] then int i else - 1)"
| "find_from i (c # cs) sub = (if prefix sub (c # cs) then int i else find_from (Suc i) cs sub)"


text \<open>\<open>s.rfind(c)\<close> for a single character \<open>c\<close>.\<close>

fun rfind_char :: "string \<Rightarrow> char \<Rightarrow> int" where
  "rfind_char [] c = - 1"
| "rfind_char (x # xs) c =
     (let r = rfind_char xs c in if r \<noteq> - 1 then r + 1 else if x = c then 0 else - 1)"

text \<open>\<open>s.replace(old, new)\<close> for single characters.\<close>

definition replace_char :: "char \<Rightarrow> char \<Rightarrow> string \<Rightarrow> string" where
  "replace_char old new s = map (\<lambda>c. if c = old then new else c) s"

text \<open>
  \<open>s.title()\<close>: a letter that follows a letter is lower-cased, every other letter is
  upper-cased.
\<close>

definition is_cased :: "char \<Rightarrow> bool" where
  "is_cased c \<longleftrightarrow> c \<in> set ascii_uppercase \<or> c \<in> set ascii_lowercase"

fun title_from :: "bool \<Rightarrow> string \<Rightarrow> string" where
  "title_from previous_is_cased [] = []"
| "title_from previous_is_cased (c # cs) =
     (if previous_is_cased then lower_char c else upper_char c) # title_from (is_cased c) cs"

definition title :: "string \<Rightarrow> string" where
  "title s = title_from False s"

text \<open>The decimal text of a count, as \<open>format\<close> and f-strings print an \<open>int\<close>.\<close>

definition digit :: "nat \<Rightarrow> char" where
  "digit d = ''0123456789'' ! d"

fun str_nat :: "nat \<Rightarrow> string" where
  "str_nat n = (if n < 10 then [digit n] else str_nat (n div 10) @ [digit (n mod 10)])"

declare str_nat.simps [simp del]

text \<open>\<open>sep.join(parts)\<close>.\<close>

fun join :: "string \<Rightarrow> string list \<Rightarrow> string" where
  "join sep [] = []"
| "join sep [part] = part"
| "join sep (part # parts) = part @ sep @ join sep parts"

section \<open>The working directory and the console\<close>

text \<open>
  The scripts read and write fixed paths of the working directory. \<open>converted_dir\<close> holds
  the names of the entries of \<open>assets/images/gallery/converted\<close> in the order the file
  system lists them (\<open>None\<close>: the directory does not exist); the other fields hold the
  bytes of a file (\<open>None\<close>: the file does not exist). \<open>console\<close> is what has been
  printed, one entry per \<open>print\<close> call.
\<close>

datatype message =
    Converted_directory_not_found
  | No_images_found
  | Found_images nat
  | Gallery_HTML_generated
  | Category_breakdown
  | Category_images string nat
  | Could_not_find_gallery_section_markers
  | Gallery_section_updated
  | Added_134_images
  | Generated_image_list nat
  | First_10_images
  | Listed_image string

datatype py_error = KeyError | FileNotFoundError | UnicodeDecodeError | UnicodeEncodeError

record site =
  converted_dir :: "string list option"
  gallery_generated_html :: "string option"
  index_html :: "string option"
  image_list_js :: "string option"
  console :: "message list"

definition print :: "message \<Rightarrow> site \<Rightarrow> site" where
  "print m w = w\<lparr>console := console w @ [m]\<rparr>"

section \<open>Text files\<close>

text \<open>
  A file of the working directory holds bytes, and the scripts open every file in text
  mode with the encoding UTF-8. A Python string is represented by its UTF-8 bytes; a file
  name that is not UTF-8 reaches Python with surrogate escapes, which stand for the bytes
  that are not UTF-8 and cannot be written back.

  \<open>utf8_step\<close> is the automaton of the strict UTF-8 decoder: it refuses a continuation
  byte out of place, an overlong form, a surrogate and a code point above U+10FFFF.
\<close>

datatype utf8_state = Start | Cont1 | Cont2 | Cont3 | After_E0 | After_ED | After_F0 | After_F4

definition in_range :: "nat \<Rightarrow> nat \<Rightarrow> char \<Rightarrow> bool" where
  "in_range lo hi c \<longleftrightarrow> digit7 c \<and> lo \<le> of_char c \<and> (of_char c :: nat) \<le> hi"

fun utf8_step :: "utf8_state \<Rightarrow> char \<Rightarrow> utf8_state option" where
  "utf8_step Start c =
     (if \<not> digit7 c then Some Start
      else if in_range 0xC2 0xDF c then Some Cont1
      else if in_range 0xE0 0xE0 c then Some After_E0
      else if in_range 0xED 0xED c then Some After_ED
      else if in_range 0xE1 0xEF c then Some Cont2
      else if in_range 0xF0 0xF0 c then Some After_F0
      else if in_range 0xF1 0xF3 c then Some Cont3
      else if in_range 0xF4 0xF4 c then Some After_F4
      else None)"
| "utf8_step Cont1 c = (if in_range 0x80 0xBF c then Some Start else None)"
| "utf8_step Cont2 c = (if in_range 0x80 0xBF c then Some Cont1 else None)"
| "utf8_step Cont3 c = (if in_range 0x80 0xBF c then Some Cont2 else None)"
| "utf8_step After_E0 c = (if in_range 0xA0 0xBF c then Some Cont1 else None)"
| "utf8_step After_ED c = (if in_range 0x80 0x9F c then Some Cont1 else None)"
| "utf8_step After_F0 c = (if in_range 0x90 0xBF c then Some Cont2 else None)"
| "utf8_step After_F4 c = (if in_range 0x80 0x8F c then Some Cont2 else None)"

fun utf8_run :: "utf8_state \<Rightarrow> string \<Rightarrow> utf8_state option" where
  "utf8_run st [] = Some st"
| "utf8_run st (c # cs) =
     (case utf8_step st c of None \<Rightarrow> None | Some st' \<Rightarrow> utf8_run st' cs)"

definition valid_utf8 :: "string \<Rightarrow> bool" where
  "valid_utf8 s \<longleftrightarrow> utf8_run Start s = Some Start"



text \<open>
  \<open>f.write(text)\<close> to a file opened with \<open>open(path, 'w', encoding='utf-8')\<close>: the
  bytes written, where the line separator of the platform is \<open>\n\<close>.
\<close>

definition write_text :: "string \<Rightarrow> py_error + string" where
  "write_text text = (if valid_utf8 text then Inr text else Inl UnicodeEncodeError)"

text \<open>
  \<open>converted_dir.glob('*' + ext)\<close> on a file system with case-sensitive names: the
  entries whose name ends in \<open>ext\<close>. A path of the directory is represented by its name.
\<close>

definition glob :: "string \<Rightarrow> string list \<Rightarrow> string list" where
  "glob ext entries = filter (suffix ext) entries"

text \<open>\<open>img.as_posix()\<close> and \<open>img.stem\<close> of a path of the converted directory.\<close>

definition as_posix :: "string \<Rightarrow> string" where
  "as_posix img = ''assets/images/gallery/converted/'' @ img"

definition stem :: "string \<Rightarrow> string" where
  "stem img =
    (let i = rfind_char img (CHR ''.'') in
     if 0 < i \<and> i < int (length img) - 1 then take (nat i) img else img)"

section \<open>generate_gallery.py: the category table and the categorizer\<close>

record cat_info =
  name :: string
  icon :: string
  patterns :: "string list"

text \<open>The dictionary \<open>CATEGORIES\<close>, as the list of its items in insertion order.\<close>

definition CATEGORIES :: "(string \<times> cat_info) list" where
  "CATEGORIES =
    [(''members'', \<lparr>name = ''Group Members'', icon = ''people-fill'',
        patterns = [''members-'', ''member-'']\<rparr>),
     (''temple'', \<lparr>name = ''Temple & Premises'', icon = ''building'',
        patterns = [''temple-'', ''head-temple-'', ''salmon-gate-'']\<rparr>),
     (''fuji'', \<lparr>name = ''Mount Fuji'', icon = ''mountain'',
        patterns = [''mount-fuji-'', ''fuji-'']\<rparr>),
     (''travel'', \<lparr>name = ''Journey & Travel'', icon = ''airplane'',
        patterns = [''cathay-'', ''hongkong-'', ''narita-'', ''airport'', ''CX-'', ''wagon-'']\<rparr>),
     (''accommodation'', \<lparr>name = ''Hotel & Dining'', icon = ''house-heart'',
        patterns = [''fujiyen-hotel'', ''dinner-'', ''meal-'', ''food'']\<rparr>),
     (''local'', \<lparr>name = ''Local Sights'', icon = ''geo-alt'',
        patterns = [''fujinomiya-'', ''waterfall'', ''vending'', ''streets'']\<rparr>),
     (''misc'', \<lparr>name = ''Other Moments'', icon = ''camera'',
        patterns = []\<rparr>)]"

text \<open>
  The loop of \<open>categorize_image\<close> over \<open>CATEGORIES.items()\<close>: the entry \<open>misc\<close> is
  skipped, the first entry with a pattern inside \<open>filename_lower\<close> is returned, and
  \<open>misc\<close> is returned when the loop ends.
\<close>

fun categorize_items :: "(string \<times> cat_info) list \<Rightarrow> string \<Rightarrow> string" where
  "categorize_items [] filename_lower = ''misc''"
| "categorize_items ((cat_id, info) # rest) filename_lower =
     (if cat_id = ''misc'' then categorize_items rest filename_lower
      else if any_in (patterns info) filename_lower then cat_id
      else categorize_items rest filename_lower)"

definition categorize_image :: "string \<Rightarrow> string" where
  "categorize_image filename = categorize_items CATEGORIES (lower filename)"

section \<open>generate_gallery_urls.py: the categorization chain\<close>

text \<open>
  The body of the loop over \<open>unique_images\<close>: the key of \<open>categories\<close> whose list
  receives \<open>img\<close>.
\<close>

definition categorize_url :: "string \<Rightarrow> string" where
  "categorize_url img =
    (let img_lower = lower img in
     if any_in [''members-'', ''member-''] img_lower then
       (if str_in ''ceremony'' img_lower then ''Ceremony & Special Events''
        else ''Members & Group Photos'')
     else if any_in [''headtemple-'', ''head-temple-'', ''temple-premises-'', ''temple-'',
                     ''tokohibo-'', ''seikado-'', ''treasury-hall-'', ''salmon-gate-'',
                     ''pagoda-''] img_lower then ''Head Temple & Premises''
     else if str_in ''mount-fuji'' img_lower \<or> str_in ''fuji-'' img_lower then ''Mount Fuji Views''
     else if any_in [''hotel-'', ''fujiyen-''] img_lower then ''Hotels & Accommodation''
     else if any_in [''hongkong-'', ''narita-'', ''cathay-'', ''cx-'', ''airport''] img_lower
       then ''Travel & Journey''
     else if any_in [''gokai-'', ''map-'', ''butsugu-''] img_lower then ''Temple Activities''
     else if any_in [''ceremony-day-''] img_lower then ''Ceremony & Special Events''
     else ''Local Places & Food'')"

section \<open>generate_gallery.py: grouping and rendering\<close>

text \<open>The dictionary \<open>categorized\<close>: a list of images under every key of the table.\<close>

type_synonym groups = "string \<rightharpoonup> string list"

definition new_categorized :: groups where
  "new_categorized = map_of (map (\<lambda>(cat, info). (cat, [])) CATEGORIES)"

text \<open>
  The loop \<open>categorized[category].append(img)\<close>; a category that is not a key raises
  \<open>KeyError\<close>.
\<close>

fun categorize_all :: "groups \<Rightarrow> string list \<Rightarrow> py_error + groups" where
  "categorize_all categorized [] = Inr categorized"
| "categorize_all categorized (img # images) =
     (let category = categorize_image img in
      case categorized category of
        None \<Rightarrow> Inl KeyError
      | Some imgs \<Rightarrow> categorize_all (categorized(category \<mapsto> imgs @ [img])) images)"

definition all_button :: "nat \<Rightarrow> string" where
  \<open>all_button n =
    ''      <div class="gallery-filters mb-4 text-center">\<newline>        <button class="btn btn-outline-primary active" data-filter="all">\<newline>          <i class="bi bi-grid-3x3"></i> All ('' @ str_nat n @ '')\<newline>        </button>''\<close>

definition category_button :: "string \<Rightarrow> cat_info \<Rightarrow> nat \<Rightarrow> string" where
  \<open>category_button cat_id info count =
    ''        <button class="btn btn-outline-primary" data-filter="'' @ cat_id @ ''">\<newline>          <i class="bi bi-'' @ icon info @ ''"></i> '' @ name info @ '' ('' @ str_nat count @ '')\<newline>        </button>''\<close>

definition filters_end :: string where
  \<open>filters_end = ''      </div>\<newline>''\<close>

definition grid_start :: string where
  \<open>grid_start = ''      <div class="gallery-grid">\<newline>''\<close>

definition alt_text :: "string \<Rightarrow> string" where
  "alt_text img = title (replace_char (CHR ''_'') (CHR '' '') (replace_char (CHR ''-'') (CHR '' '') (stem img)))"

definition gallery_item :: "string \<Rightarrow> string \<Rightarrow> string" where
  \<open>gallery_item cat_id img =
    ''        <div class="gallery-item" data-category="'' @ cat_id @ ''">\<newline>          <a href="'' @ as_posix img @ ''" class="glightbox" data-gallery="tozan-gallery">\<newline>            <img src="'' @ as_posix img @ ''" alt="'' @ alt_text img @ ''" loading="lazy" />\<newline>            <div class="gallery-overlay">\<newline>              <i class="bi bi-zoom-in"></i>\<newline>            </div>\<newline>          </a>\<newline>        </div>\<newline>''\<close>

definition grid_end :: string where
  \<open>grid_end = ''      </div>''\<close>

text \<open>The loop over \<open>CATEGORIES.items()\<close> that appends one button per non-empty group.\<close>

fun filter_buttons :: "(string \<times> cat_info) list \<Rightarrow> groups \<Rightarrow> py_error + string list" where
  "filter_buttons [] categorized = Inr []"
| "filter_buttons ((cat_id, info) # rest) categorized =
     (case categorized cat_id of
        None \<Rightarrow> Inl KeyError
      | Some imgs \<Rightarrow>
          (let count = length imgs in
           case filter_buttons rest categorized of
             Inl e \<Rightarrow> Inl e
           | Inr parts \<Rightarrow>
               Inr ((if count > 0 then [category_button cat_id info count] else []) @ parts)))"

text \<open>The loop over \<open>CATEGORIES.keys()\<close> that appends one block per image of each group.\<close>

fun image_blocks :: "string list \<Rightarrow> groups \<Rightarrow> py_error + string list" where
  "image_blocks [] categorized = Inr []"
| "image_blocks (cat_id # rest) categorized =
     (case categorized cat_id of
        None \<Rightarrow> Inl KeyError
      | Some imgs \<Rightarrow>
          (case image_blocks rest categorized of
             Inl e \<Rightarrow> Inl e
           | Inr parts \<Rightarrow> Inr (map (gallery_item cat_id) imgs @ parts)))"

text \<open>
  The list \<open>html_parts\<close> that \<open>generate_gallery_html\<close> builds from \<open>images\<close> and
  \<open>categorized\<close>.
\<close>

definition html_parts :: "string list \<Rightarrow> groups \<Rightarrow> py_error + string list" where
  "html_parts images categorized =
    (case filter_buttons CATEGORIES categorized of
       Inl e \<Rightarrow> Inl e
     | Inr buttons \<Rightarrow>
         (case image_blocks (map fst CATEGORIES) categorized of
            Inl e \<Rightarrow> Inl e
          | Inr blocks \<Rightarrow>
              Inr ([all_button (length images)] @ buttons @ [filters_end, grid_start]
                   @ blocks @ [grid_end])))"

text \<open>The category breakdown printed after the file is written.\<close>

fun breakdown :: "(string \<times> cat_info) list \<Rightarrow> groups \<Rightarrow> site \<Rightarrow> py_error + site" where
  "breakdown [] categorized w = Inr w"
| "breakdown ((cat_id, info) # rest) categorized w =
     (case categorized cat_id of
        None \<Rightarrow> Inl KeyError
      | Some imgs \<Rightarrow>
          (let count = length imgs in
           breakdown rest categorized
             (if count > 0 then print (Category_images (name info) count) w else w)))"

text \<open>
  \<open>generate_gallery_html\<close>: the result is \<open>Inr ()\<close> when the function returns and
  \<open>Inl e\<close> when it raises \<open>e\<close>, together with the working directory it leaves.
  Opening \<open>gallery_generated.html\<close> for writing empties it, so a text that cannot be
  encoded leaves the file empty.
\<close>

definition generate_gallery_html :: "site \<Rightarrow> (py_error + unit) \<times> site" where
  "generate_gallery_html w =
    (case converted_dir w of
       None \<Rightarrow> (Inr (), print Converted_directory_not_found w)
     | Some entries \<Rightarrow>
         (let images = sort (glob ''.jpg'' entries) in
          if images = [] then (Inr (), print No_images_found w)
          else
            (let w1 = print (Found_images (length images)) w in
             case categorize_all new_categorized images of
               Inl e \<Rightarrow> (Inl e, w1)
             | Inr categorized \<Rightarrow>
                 (case html_parts images categorized of
                    Inl e \<Rightarrow> (Inl e, w1)
                  | Inr parts \<Rightarrow>
                      (case write_text (join ''\<newline>'' parts) of
                         Inl e \<Rightarrow> (Inl e, w1\<lparr>gallery_generated_html := Some []\<rparr>)
                       | Inr bytes \<Rightarrow>
                           (let w2 = w1\<lparr>gallery_generated_html := Some bytes\<rparr>;
                                w3 = print Category_breakdown (print Gallery_HTML_generated w2)
                            in case breakdown CATEGORIES categorized w3 of
                                 Inl e \<Rightarrow> (Inl e, w3)
                               | Inr w4 \<Rightarrow> (Inr (), w4)))))))"

text \<open>The images of a list that the categorizer assigns to a category, in list order.\<close>

abbreviation group_of :: "string list \<Rightarrow> string \<Rightarrow> string list" where
  "group_of images cat_id \<equiv> filter (\<lambda>img. categorize_image img = cat_id) images"

section \<open>update_gallery_in_html.py\<close>





section \<open>generate_image_list.py\<close>

definition image_extensions :: "string list" where
  "image_extensions = [''.jpg'', ''.jpeg'', ''.png'', ''.webp'', ''.gif'']"

text \<open>The list \<open>images\<close> after the loop over \<open>image_extensions\<close>.\<close>

definition scan_images :: "string list \<Rightarrow> string list" where
  "scan_images entries =
    concat (map (\<lambda>ext. glob ext entries @ glob (upper ext) entries) image_extensions)"

definition image_names :: "string list \<Rightarrow> string list" where
  "image_names entries = sort (scan_images entries)"

definition js_array :: "string list \<Rightarrow> string" where
  "js_array names =
    ''const ACTUAL_IMAGES = [\<newline>''
    @ concat (map (\<lambda>img. ''  '' @ [CHR 0x27] @ img @ [CHR 0x27] @ '',\<newline>'') names)
    @ ''];''"

definition generate_image_list :: "site \<Rightarrow> (py_error + unit) \<times> site" where
  "generate_image_list w =
    (case converted_dir w of
       None \<Rightarrow> (Inr (), print Converted_directory_not_found w)
     | Some entries \<Rightarrow>
         (let names = image_names entries;
              w1 = print (Found_images (length names)) w
          in case write_text (js_array names) of
               Inl e \<Rightarrow> (Inl e, w1\<lparr>image_list_js := Some []\<rparr>)
             | Inr bytes \<Rightarrow>
                 (let w2 = w1\<lparr>image_list_js := Some bytes\<rparr>;
                      w3 = print First_10_images (print (Generated_image_list (length names)) w2)
                  in (Inr (), fold (\<lambda>img. print (Listed_image img)) (take 10 names) w3))))"

section \<open>generate_gallery_urls.py: removing duplicates\<close>

text \<open>The loop that fills \<open>unique_images\<close> and \<open>seen\<close> from \<open>images\<close>.\<close>

fun unique_loop :: "string list \<Rightarrow> string list \<Rightarrow> string set \<Rightarrow> string list" where
  "unique_loop [] unique seen = unique"
| "unique_loop (img # images) unique seen =
     (if img \<notin> seen then unique_loop images (unique @ [img]) (insert img seen)
      else unique_loop images unique seen)"

definition unique_images :: "string list \<Rightarrow> string list" where
  "unique_images images = unique_loop images [] {}"

section \<open>The categorizer as the specification words it\<close>

text \<open>
  The specification's algorithm over an ordered table of (id, keywords) rules: lower-case
  the file name once, go through the rules in order, return the id of the first rule one
  of whose keywords is inside the lower-cased name, and the catch-all id when no rule
  matches. It is compared with the two categorizers of the scripts below.
\<close>

fun first_match :: "(string \<times> string list) list \<Rightarrow> string \<Rightarrow> string \<Rightarrow> string" where
  "first_match [] catch_all s = catch_all"
| "first_match ((rule_id, keywords) # rules) catch_all s =
     (if any_in keywords s then rule_id else first_match rules catch_all s)"

definition spec_categorize :: "(string \<times> string list) list \<Rightarrow> string \<Rightarrow> string \<Rightarrow> string" where
  "spec_categorize rules catch_all filename = first_match rules catch_all (lower filename)"

text \<open>The table of \<open>generate_gallery.py\<close> as rules, in its declared order.\<close>

definition gallery_rules :: "(string \<times> string list) list" where
  "gallery_rules = map (\<lambda>(cat_id, info). (cat_id, patterns info)) CATEGORIES"

text \<open>The chain of \<open>generate_gallery_urls.py\<close> read as a table, branch by branch.\<close>

definition url_rules :: "(string \<times> string list) list" where
  "url_rules =
    [(''Members & Group Photos'', [''members-'', ''member-'']),
     (''Head Temple & Premises'',
        [''headtemple-'', ''head-temple-'', ''temple-premises-'', ''temple-'', ''tokohibo-'',
         ''seikado-'', ''treasury-hall-'', ''salmon-gate-'', ''pagoda-'']),
     (''Mount Fuji Views'', [''mount-fuji'', ''fuji-'']),
     (''Hotels & Accommodation'', [''hotel-'', ''fujiyen-'']),
     (''Travel & Journey'', [''hongkong-'', ''narita-'', ''cathay-'', ''cx-'', ''airport'']),
     (''Temple Activities'', [''gokai-'', ''map-'', ''butsugu-'']),
     (''Ceremony & Special Events'', [''ceremony-day-''])]"

section \<open>Reading a displayed count\<close>

text \<open>The number that a string of decimal digits displays.\<close>

definition digit_value :: "char \<Rightarrow> nat" where
  "digit_value c = of_char c - 48"

definition decimal_value :: "string \<Rightarrow> nat" where
  "decimal_value s = foldl (\<lambda>v c. 10 * v + digit_value c) 0 s"

section \<open>Facts about the string primitives\<close>

lemma str_in_iff_sublist: "str_in sub s \<longleftrightarrow> sublist sub s"
  by (induction s) (auto simp: sublist_Cons_right)

lemma str_in_set: "str_in sub s \<Longrightarrow> set sub \<subseteq> set s"
  by (simp add: str_in_iff_sublist set_mono_sublist)

lemma lower_char_not_upper: "lower_char c \<notin> set ascii_uppercase"
proof (cases "map_of (zip ascii_uppercase ascii_lowercase) c")
  case None
  have len: "length ascii_uppercase = length ascii_lowercase"
    by (simp add: ascii_uppercase_def ascii_lowercase_def)
  from None have "c \<notin> set ascii_uppercase"
    using map_of_zip_is_None [OF len, of c] by blast
  with None show ?thesis by (simp add: lower_char_def)
next
  case (Some l)
  then have "l \<in> set ascii_lowercase"
    by (meson map_of_SomeD set_zip_rightD)
  moreover have "set ascii_lowercase \<inter> set ascii_uppercase = {}"
    by (simp add: ascii_lowercase_def ascii_uppercase_def)
  ultimately show ?thesis using Some by (auto simp: lower_char_def)
qed

lemma lower_no_upper: "set (lower s) \<inter> set ascii_uppercase = {}"
  using lower_char_not_upper by (auto simp: lower_def)

section \<open>The categorizers against the specification\<close>

lemmas str_eval = lower_def lower_char_def ascii_uppercase_def ascii_lowercase_def any_in_def

lemma first_match_index:
  "i < length rules \<Longrightarrow> any_in (snd (rules ! i)) s \<Longrightarrow>
   (\<forall>k<i. \<not> any_in (snd (rules ! k)) s) \<Longrightarrow> first_match rules d s = fst (rules ! i)"
proof (induction rules arbitrary: i)
  case Nil
  then show ?case by simp
next
  case (Cons r rules)
  obtain rid kws where r: "r = (rid, kws)" by (cases r)
  show ?case
  proof (cases i)
    case 0
    with Cons.prems r show ?thesis by simp
  next
    case (Suc i')
    from Cons.prems(3) Suc have "\<not> any_in kws s" using r by fastforce
    moreover have "first_match rules d s = fst (rules ! i')"
    proof (rule Cons.IH)
      show "i' < length rules" using Cons.prems(1) Suc by simp
      show "any_in (snd (rules ! i')) s" using Cons.prems(2) Suc by simp
      show "\<forall>k<i'. \<not> any_in (snd (rules ! k)) s"
        using Cons.prems(3) Suc by fastforce
    qed
    ultimately show ?thesis using r Suc by simp
  qed
qed

lemma categorize_items_first_match:
  "categorize_items items s =
     first_match (map (\<lambda>(cat_id, info). (cat_id, patterns info))
                   (filter (\<lambda>item. fst item \<noteq> ''misc'') items)) ''misc'' s"
  by (induction items s rule: categorize_items.induct) simp_all

lemma gallery_rules_misc:
  "first_match gallery_rules ''misc'' s =
   first_match (map (\<lambda>(cat_id, info). (cat_id, patterns info))
                   (filter (\<lambda>item. fst item \<noteq> ''misc'') CATEGORIES)) ''misc'' s"
  by (simp add: gallery_rules_def CATEGORIES_def any_in_def)

lemma categorize_image_spec:
  "categorize_image filename = spec_categorize gallery_rules ''misc'' filename"
  by (simp add: categorize_image_def spec_categorize_def categorize_items_first_match gallery_rules_misc)

lemma distinct_gallery_ids: "distinct (map fst gallery_rules)"
  by (simp add: gallery_rules_def CATEGORIES_def)

lemma categorize_url_spec:
  "categorize_url filename =
     (if any_in [''members-'', ''member-''] (lower filename) \<and> str_in ''ceremony'' (lower filename)
      then ''Ceremony & Special Events''
      else spec_categorize url_rules ''Local Places & Food'' filename)"
  by (simp add: categorize_url_def spec_categorize_def url_rules_def Let_def any_in_def)

text \<open>
  Claim C1, as amended. The categorizer of \<open>generate_gallery.py\<close> is the specification's
  algorithm on its table: it returns the id of the first rule, in table order, one of whose
  keywords is inside the lower-cased file name, and \<open>misc\<close> when there is none. So when
  keywords of a rule R and of a later rule S are inside the lower-cased name, and no rule
  before R has a keyword inside it, the result is the id of R and not the id of S. The
  chain of \<open>generate_gallery_urls.py\<close> is the same algorithm on its own table, except that
  a name matching the members rule goes to the ceremony category when its lower-cased form
  contains \<open>ceremony\<close>.
\<close>

theorem categorize_first_match:
  "categorize_image filename = spec_categorize gallery_rules ''misc'' filename
   \<and> (\<forall>i j. i < j \<and> j < length gallery_rules
          \<and> any_in (snd (gallery_rules ! i)) (lower filename)
          \<and> any_in (snd (gallery_rules ! j)) (lower filename)
          \<and> (\<forall>k<i. \<not> any_in (snd (gallery_rules ! k)) (lower filename))
        \<longrightarrow> categorize_image filename = fst (gallery_rules ! i)
            \<and> categorize_image filename \<noteq> fst (gallery_rules ! j))
   \<and> categorize_url filename =
       (if any_in [''members-'', ''member-''] (lower filename) \<and> str_in ''ceremony'' (lower filename)
        then ''Ceremony & Special Events''
        else spec_categorize url_rules ''Local Places & Food'' filename)"
proof (intro conjI allI impI)
  show "categorize_image filename = spec_categorize gallery_rules ''misc'' filename"
    by (rule categorize_image_spec)
next
  fix i j
  assume h: "i < j \<and> j < length gallery_rules
          \<and> any_in (snd (gallery_rules ! i)) (lower filename)
          \<and> any_in (snd (gallery_rules ! j)) (lower filename)
          \<and> (\<forall>k<i. \<not> any_in (snd (gallery_rules ! k)) (lower filename))"
  then have i: "i < length gallery_rules" by simp
  have "first_match gallery_rules ''misc'' (lower filename) = fst (gallery_rules ! i)"
    using h i by (intro first_match_index) simp_all
  then show r: "categorize_image filename = fst (gallery_rules ! i)"
    by (simp add: categorize_image_spec spec_categorize_def)
  have "fst (gallery_rules ! i) \<noteq> fst (gallery_rules ! j)"
    using nth_eq_iff_index_eq [OF distinct_gallery_ids, of i j] h i by simp
  then show "categorize_image filename \<noteq> fst (gallery_rules ! j)"
    using r by simp
next
  show "categorize_url filename =
       (if any_in [''members-'', ''member-''] (lower filename) \<and> str_in ''ceremony'' (lower filename)
        then ''Ceremony & Special Events''
        else spec_categorize url_rules ''Local Places & Food'' filename)"
    by (rule categorize_url_spec)
qed

text \<open>
  The amended claim C1 at the file name \<open>temple-fuji-1.jpg\<close>: keywords of the rules
  \<open>temple\<close> and \<open>fuji\<close> are inside it, none of \<open>members\<close> is, and the result is
  \<open>temple\<close>.
\<close>

theorem categorize_first_match_witness:
  "any_in (snd (gallery_rules ! 1)) (lower ''temple-fuji-1.jpg'')
   \<and> any_in (snd (gallery_rules ! 2)) (lower ''temple-fuji-1.jpg'')
   \<and> \<not> any_in (snd (gallery_rules ! 0)) (lower ''temple-fuji-1.jpg'')
   \<and> categorize_image ''temple-fuji-1.jpg'' = ''temple''"
proof -
  let ?f = "''temple-fuji-1.jpg''"
  have low: "lower ?f = ?f" by (simp add: str_eval)
  have m1: "any_in (snd (gallery_rules ! 1)) (lower ?f)"
    unfolding low by (simp add: gallery_rules_def CATEGORIES_def any_in_def)
  have m2: "any_in (snd (gallery_rules ! 2)) (lower ?f)"
    unfolding low by (simp add: gallery_rules_def CATEGORIES_def any_in_def)
  have m0: "\<not> any_in (snd (gallery_rules ! 0)) (lower ?f)"
    unfolding low by (simp add: gallery_rules_def CATEGORIES_def any_in_def)
  have m0': "\<forall>k<(1::nat). \<not> any_in (snd (gallery_rules ! k)) (lower ?f)"
    using m0 by simp
  have len: "(2::nat) < length gallery_rules"
    by (simp add: gallery_rules_def CATEGORIES_def)
  have "categorize_image ?f = fst (gallery_rules ! 1)"
    using categorize_first_match [of ?f] m1 m2 m0' len by (metis one_less_numeral_iff semiring_norm(76))
  moreover have "fst (gallery_rules ! 1) = ''temple''"
    by (simp add: gallery_rules_def CATEGORIES_def)
  ultimately show ?thesis using m0 m1 m2 by simp
qed

text \<open>
  Claim C1 as stated fails. The name \<open>members-temple-fuji-1.jpg\<close> holds a keyword of
  \<open>temple\<close> and a keyword of the later rule \<open>fuji\<close>, and \<open>generate_gallery.py\<close> does
  not return \<open>temple\<close>: the earlier rule \<open>members\<close> matches first. The name
  \<open>members-ceremony-day-1.jpg\<close> holds a keyword of the first branch of
  \<open>generate_gallery_urls.py\<close> (members) and the keyword of its later ceremony branch, and
  the result is not the members category.
\<close>

theorem first_match_wins_counterexample:
  "fst (gallery_rules ! 1) = ''temple'' \<and> fst (gallery_rules ! 2) = ''fuji''
   \<and> any_in (snd (gallery_rules ! 1)) ''members-temple-fuji-1.jpg''
   \<and> any_in (snd (gallery_rules ! 2)) ''members-temple-fuji-1.jpg''
   \<and> lower ''members-temple-fuji-1.jpg'' = ''members-temple-fuji-1.jpg''
   \<and> categorize_image ''members-temple-fuji-1.jpg'' \<noteq> ''temple''
   \<and> str_in ''members-'' (lower ''members-ceremony-day-1.jpg'')
   \<and> str_in ''ceremony-day-'' (lower ''members-ceremony-day-1.jpg'')
   \<and> categorize_url ''members-ceremony-day-1.jpg'' \<noteq> ''Members & Group Photos''"
  by (simp add: gallery_rules_def categorize_image_def categorize_url_def CATEGORIES_def str_eval)

section \<open>The upper-case keyword of the travel category\<close>

text \<open>
  Claim C9. In \<open>generate_gallery.py\<close> the travel keyword \<open>CX-\<close> is never inside a
  lower-cased file name, whatever the file name is: the lower-cased name holds no upper-case
  letter. The file name \<open>CX-100.jpg\<close> holds the keyword as it is written and no other
  keyword of the table, and is categorized as \<open>misc\<close>.
\<close>

theorem cx_keyword_never_matches:
  "\<not> str_in ''CX-'' (lower filename)
   \<and> str_in ''CX-'' ''CX-100.jpg''
   \<and> categorize_image ''CX-100.jpg'' = ''misc''"
proof -
  have "\<not> str_in ''CX-'' (lower filename)"
  proof
    assume "str_in ''CX-'' (lower filename)"
    then have "CHR ''C'' \<in> set (lower filename)" using str_in_set by fastforce
    moreover have "CHR ''C'' \<in> set ascii_uppercase" by (simp add: ascii_uppercase_def)
    ultimately show False using lower_no_upper by blast
  qed
  moreover have "categorize_image ''CX-100.jpg'' = ''misc''"
    by (simp add: categorize_image_def CATEGORIES_def str_eval)
  ultimately show ?thesis by simp
qed

section \<open>Removing duplicates keeps first occurrences\<close>

lemma unique_loop_invariant:
  "distinct unique \<Longrightarrow> set unique = seen \<Longrightarrow>
   distinct (unique_loop images unique seen) \<and> set (unique_loop images unique seen) = seen \<union> set images"
  by (induction images arbitrary: unique seen) auto

lemma unique_loop_first_occurrences:
  "unique_loop images unique seen =
     unique @ map ((!) images)
       (filter (\<lambda>i. images ! i \<notin> seen \<union> set (take i images)) [0..<length images])"
proof (induction images arbitrary: unique seen)
  case Nil
  then show ?case by simp
next
  case (Cons x xs)
  have upt: "[0..<length (x # xs)] = 0 # map Suc [0..<length xs]"
    by (simp add: upt_conv_Cons map_Suc_upt del: upt_Suc)
  show ?case
  proof (cases "x \<in> seen")
    case True
    then have "(\<lambda>i. xs ! i \<notin> seen \<and> xs ! i \<noteq> x \<and> xs ! i \<notin> set (take i xs))
             = (\<lambda>i. xs ! i \<notin> seen \<and> xs ! i \<notin> set (take i xs))"
      by auto
    with True show ?thesis
      unfolding upt by (simp add: Cons.IH filter_map o_def)
  next
    case False
    then show ?thesis
      unfolding upt by (simp add: Cons.IH filter_map o_def conj_ac)
  qed
qed

text \<open>
  Claim C10. \<open>unique_images\<close> holds every file name of \<open>images\<close> exactly once, and
  it is the list of the first occurrences in \<open>images\<close>, in their order in \<open>images\<close>:
  the entries at the positions whose file name does not occur at an earlier position.
\<close>

theorem unique_images_first_occurrences:
  "distinct (unique_images images)
   \<and> set (unique_images images) = set images
   \<and> unique_images images =
       map ((!) images) (filter (\<lambda>i. images ! i \<notin> set (take i images)) [0..<length images])"
  using unique_loop_invariant [of "[]" "{}" images]
        unique_loop_first_occurrences [of images "[]" "{}"]
  by (simp add: unique_images_def)

section \<open>Grouping: every image in exactly one group\<close>

lemma first_match_range: "first_match rules d s \<in> insert d (fst ` set rules)"
  by (induction rules d s rule: first_match.induct) auto

lemma categorize_image_key: "categorize_image img \<in> set (map fst CATEGORIES)"
proof -
  have "categorize_image img \<in> insert ''misc'' (fst ` set gallery_rules)"
    unfolding categorize_image_spec spec_categorize_def by (rule first_match_range)
  moreover have "insert ''misc'' (fst ` set gallery_rules) = set (map fst CATEGORIES)"
    by (auto simp: gallery_rules_def CATEGORIES_def)
  ultimately show ?thesis by simp
qed

lemma distinct_category_ids: "distinct (map fst CATEGORIES)"
  by (simp add: CATEGORIES_def)

lemma new_categorized_eq:
  "new_categorized cat_id = (if cat_id \<in> set (map fst CATEGORIES) then Some [] else None)"
proof -
  have "map_of (map (\<lambda>(cat, info). (cat, [] :: string list)) items) cat_id
        = (if cat_id \<in> set (map fst items) then Some [] else None)"
    for items :: "(string \<times> cat_info) list"
    by (induction items) auto
  then show ?thesis by (simp add: new_categorized_def)
qed

lemma categorize_all_appends:
  "set (map fst CATEGORIES) \<subseteq> dom categorized \<Longrightarrow>
   categorize_all categorized images =
     Inr (\<lambda>cat_id. map_option (\<lambda>imgs. imgs @ group_of images cat_id) (categorized cat_id))"
proof (induction images arbitrary: categorized)
  case Nil
  have "(\<lambda>cat_id. map_option (\<lambda>imgs. imgs) (categorized cat_id)) = categorized"
    by (rule ext) (simp add: option.map_ident)
  then show ?case by simp
next
  case (Cons img images)
  let ?category = "categorize_image img"
  from Cons.prems categorize_image_key [of img]
  obtain imgs where imgs: "categorized ?category = Some imgs" by blast
  let ?next = "categorized(?category \<mapsto> imgs @ [img])"
  have "set (map fst CATEGORIES) \<subseteq> dom ?next" using Cons.prems by auto
  then have "categorize_all ?next images =
     Inr (\<lambda>cat_id. map_option (\<lambda>imgs. imgs @ group_of images cat_id) (?next cat_id))"
    by (rule Cons.IH)
  moreover have "(\<lambda>cat_id. map_option (\<lambda>imgs. imgs @ group_of images cat_id) (?next cat_id))
     = (\<lambda>cat_id. map_option (\<lambda>imgs. imgs @ group_of (img # images) cat_id) (categorized cat_id))"
    by (rule ext) (auto simp: imgs map_option_case split: option.splits)
  ultimately show ?case by (simp add: imgs Let_def)
qed

lemma categorize_all_groups:
  "categorize_all new_categorized images =
     Inr (\<lambda>cat_id. if cat_id \<in> set (map fst CATEGORIES) then Some (group_of images cat_id) else None)"
proof -
  have "set (map fst CATEGORIES) \<subseteq> dom new_categorized"
    by (auto simp: new_categorized_eq dom_def)
  then have "categorize_all new_categorized images =
     Inr (\<lambda>cat_id. map_option (\<lambda>imgs. imgs @ group_of images cat_id) (new_categorized cat_id))"
    by (rule categorize_all_appends)
  moreover have "(\<lambda>cat_id. map_option (\<lambda>imgs. imgs @ group_of images cat_id) (new_categorized cat_id))
     = (\<lambda>cat_id. if cat_id \<in> set (map fst CATEGORIES) then Some (group_of images cat_id) else None)"
    by (rule ext) (simp add: new_categorized_eq)
  ultimately show ?thesis by simp
qed

lemma sum_list_indicator:
  "distinct keys \<Longrightarrow> k \<in> set keys \<Longrightarrow> (\<Sum>key\<leftarrow>keys. if k = key then 1 else 0) = (1::nat)"
  by (induction keys) auto

lemma sum_list_indicator_zero:
  "k \<notin> set keys \<Longrightarrow> (\<Sum>key\<leftarrow>keys. if k = key then 1 else 0) = (0::nat)"
  by (induction keys) auto

lemma group_sizes_sum:
  "distinct keys \<Longrightarrow> (\<forall>x \<in> set xs. f x \<in> set keys) \<Longrightarrow>
   (\<Sum>key\<leftarrow>keys. length (filter (\<lambda>x. f x = key) xs)) = length xs"
proof (induction xs)
  case Nil
  then show ?case by simp
next
  case (Cons x xs)
  have "(\<Sum>key\<leftarrow>keys. length (filter (\<lambda>x. f x = key) (x # xs)))
        = (\<Sum>key\<leftarrow>keys. (if f x = key then 1 else 0) + length (filter (\<lambda>x. f x = key) xs))"
    by (rule arg_cong [where f = sum_list]) simp
  also have "\<dots> = (\<Sum>key\<leftarrow>keys. if f x = key then 1 else 0)
                  + (\<Sum>key\<leftarrow>keys. length (filter (\<lambda>x. f x = key) xs))"
    by (simp add: sum_list_addf)
  also have "\<dots> = 1 + length xs"
    using Cons sum_list_indicator [of keys "f x"] by simp
  finally show ?case by simp
qed

text \<open>
  Claim C2. For every list of file names the grouping loop ends without \<open>KeyError\<close>
  (the catch-all \<open>misc\<close> is a key); the group of each category is the list of the
  images the categorizer assigns to it, in input order; each image is in the group of
  exactly one category; and the sizes of the groups add up to the number of images.
\<close>

theorem every_image_in_one_group:
  "\<exists>categorized. categorize_all new_categorized images = Inr categorized
     \<and> dom categorized = set (map fst CATEGORIES)
     \<and> (\<forall>cat_id \<in> set (map fst CATEGORIES).
           categorized cat_id = Some (filter (\<lambda>img. categorize_image img = cat_id) images))
     \<and> (\<forall>img \<in> set images. \<exists>!cat_id. \<exists>imgs. categorized cat_id = Some imgs \<and> img \<in> set imgs)
     \<and> (\<Sum>cat_id\<leftarrow>map fst CATEGORIES.
           case categorized cat_id of None \<Rightarrow> 0 | Some imgs \<Rightarrow> length imgs) = length images"
proof -
  let ?keys = "map fst CATEGORIES"
  let ?cz = "\<lambda>cat_id. if cat_id \<in> set ?keys then Some (group_of images cat_id) else None"
  have run: "categorize_all new_categorized images = Inr ?cz"
    by (rule categorize_all_groups)
  have dom: "dom ?cz = set ?keys" by (auto simp: dom_def)
  have groups: "\<forall>cat_id \<in> set ?keys. ?cz cat_id = Some (group_of images cat_id)" by simp
  have one: "\<forall>img \<in> set images. \<exists>!cat_id. \<exists>imgs. ?cz cat_id = Some imgs \<and> img \<in> set imgs"
  proof
    fix img assume img: "img \<in> set images"
    show "\<exists>!cat_id. \<exists>imgs. ?cz cat_id = Some imgs \<and> img \<in> set imgs"
    proof (rule ex1I [where a = "categorize_image img"])
      show "\<exists>imgs. ?cz (categorize_image img) = Some imgs \<and> img \<in> set imgs"
        using img categorize_image_key [of img] by simp
    next
      fix cat_id assume "\<exists>imgs. ?cz cat_id = Some imgs \<and> img \<in> set imgs"
      then show "cat_id = categorize_image img" by (auto split: if_splits)
    qed
  qed
  have "(\<Sum>cat_id\<leftarrow>?keys. case ?cz cat_id of None \<Rightarrow> 0 | Some imgs \<Rightarrow> length imgs)
        = (\<Sum>cat_id\<leftarrow>?keys. length (group_of images cat_id))"
    by (rule arg_cong [where f = sum_list]) simp
  also have "\<dots> = length images"
    using distinct_category_ids categorize_image_key by (intro group_sizes_sum) auto
  finally have total: "(\<Sum>cat_id\<leftarrow>?keys. case ?cz cat_id of None \<Rightarrow> 0 | Some imgs \<Rightarrow> length imgs)
        = length images" .
  from run dom groups one total show ?thesis by blast
qed

text \<open>Claim C2 at the two file names \<open>fuji-1.jpg\<close> and \<open>x.jpg\<close>.\<close>

theorem every_image_in_one_group_witness:
  "\<exists>categorized. categorize_all new_categorized [''fuji-1.jpg'', ''x.jpg''] = Inr categorized
     \<and> categorized ''fuji'' = Some [''fuji-1.jpg'']
     \<and> categorized ''misc'' = Some [''x.jpg'']
     \<and> categorized ''members'' = Some []"
proof -
  from every_image_in_one_group [of "[''fuji-1.jpg'', ''x.jpg'']"]
  obtain categorized where run: "categorize_all new_categorized [''fuji-1.jpg'', ''x.jpg''] = Inr categorized"
    and groups: "\<forall>cat_id \<in> set (map fst CATEGORIES).
           categorized cat_id = Some (filter (\<lambda>img. categorize_image img = cat_id) [''fuji-1.jpg'', ''x.jpg''])"
    by blast
  have c1: "categorize_image ''fuji-1.jpg'' = ''fuji''"
    by (simp add: categorize_image_def CATEGORIES_def str_eval)
  have c2: "categorize_image ''x.jpg'' = ''misc''"
    by (simp add: categorize_image_def CATEGORIES_def str_eval)
  have keys: "''fuji'' \<in> set (map fst CATEGORIES)" "''misc'' \<in> set (map fst CATEGORIES)"
    "''members'' \<in> set (map fst CATEGORIES)"
    by (simp_all add: CATEGORIES_def)
  have "categorized ''fuji'' = Some [''fuji-1.jpg'']"
    using bspec [OF groups keys(1)] by (simp add: c1 c2)
  moreover have "categorized ''misc'' = Some [''x.jpg'']"
    using bspec [OF groups keys(2)] by (simp add: c1 c2)
  moreover have "categorized ''members'' = Some []"
    using bspec [OF groups keys(3)] by (simp add: c1 c2)
  ultimately show ?thesis using run by blast
qed

section \<open>Facts about UTF-8 text\<close>

lemma utf8_step_ascii:
  "\<not> digit7 c \<Longrightarrow> utf8_step st c = (if st = Start then Some Start else None)"
  by (cases st) (simp_all add: in_range_def)

lemma utf8_run_append:
  "utf8_run st (a @ b) = (case utf8_run st a of None \<Rightarrow> None | Some st' \<Rightarrow> utf8_run st' b)"
  by (induction a arbitrary: st) (auto split: option.splits)

lemma valid_utf8_Nil: "valid_utf8 []"
  by (simp add: valid_utf8_def)

lemma valid_utf8_Cons_ascii: "\<not> digit7 c \<Longrightarrow> valid_utf8 (c # s) \<longleftrightarrow> valid_utf8 s"
  by (simp add: valid_utf8_def utf8_step_ascii)

lemma valid_utf8_append_valid: "valid_utf8 a \<Longrightarrow> valid_utf8 (a @ b) \<longleftrightarrow> valid_utf8 b"
  by (simp add: valid_utf8_def utf8_run_append)

lemma valid_utf8_ascii: "list_all (\<lambda>c. \<not> digit7 c) s \<Longrightarrow> valid_utf8 s"
  by (induction s) (simp_all add: valid_utf8_Nil valid_utf8_Cons_ascii)

lemma valid_utf8_concat: "\<forall>x \<in> set xs. valid_utf8 x \<Longrightarrow> valid_utf8 (concat xs)"
  by (induction xs) (simp_all add: valid_utf8_Nil valid_utf8_append_valid)

lemma valid_utf8_join:
  "valid_utf8 sep \<Longrightarrow> \<forall>x \<in> set xs. valid_utf8 x \<Longrightarrow> valid_utf8 (join sep xs)"
  by (induction sep xs rule: join.induct) (simp_all add: valid_utf8_Nil valid_utf8_append_valid)

text \<open>
  Changing ASCII characters into ASCII characters, and nothing else, keeps a text valid.
\<close>

lemma utf8_run_same_shape:
  "list_all2 (\<lambda>c d. if digit7 c then d = c else \<not> digit7 d) s t \<Longrightarrow>
   utf8_run st s = utf8_run st t"
proof (induction s t arbitrary: st rule: list_all2_induct)
  case Nil
  then show ?case by simp
next
  case (Cons c s d t)
  then show ?case
    by (cases "digit7 c") (auto simp: utf8_step_ascii split: option.splits)
qed

lemma valid_utf8_same_shape:
  "list_all2 (\<lambda>c d. if digit7 c then d = c else \<not> digit7 d) s t \<Longrightarrow>
   valid_utf8 s \<Longrightarrow> valid_utf8 t"
  using utf8_run_same_shape [of s t Start] by (simp add: valid_utf8_def)

lemma valid_utf8_take:
  assumes "valid_utf8 s" and "n < length s" and "\<not> digit7 (s ! n)"
  shows "valid_utf8 (take n s)"
proof -
  have s: "s = take n s @ s ! n # drop (Suc n) s"
    using assms(2) by (simp add: Cons_nth_drop_Suc)
  from assms(1) have run: "utf8_run Start (take n s @ s ! n # drop (Suc n) s) = Some Start"
    using s by (simp add: valid_utf8_def)
  show ?thesis
  proof (cases "utf8_run Start (take n s)")
    case None
    with run show ?thesis by (simp add: utf8_run_append)
  next
    case (Some st)
    with run assms(3) have "st = Start"
      by (auto simp: utf8_run_append utf8_step_ascii split: if_splits)
    with Some show ?thesis by (simp add: valid_utf8_def)
  qed
qed

lemma ascii_letters:
  "list_all (\<lambda>c. \<not> digit7 c) ascii_uppercase" "list_all (\<lambda>c. \<not> digit7 c) ascii_lowercase"
  by (simp_all add: ascii_uppercase_def ascii_lowercase_def)

lemma lower_char_shape: "if digit7 c then lower_char c = c else \<not> digit7 (lower_char c)"
proof (cases "map_of (zip ascii_uppercase ascii_lowercase) c")
  case None
  then show ?thesis by (simp add: lower_char_def)
next
  case (Some l)
  then have "(c, l) \<in> set (zip ascii_uppercase ascii_lowercase)" by (rule map_of_SomeD)
  then have "c \<in> set ascii_uppercase" "l \<in> set ascii_lowercase"
    by (auto dest: set_zip_leftD set_zip_rightD)
  with ascii_letters have "\<not> digit7 c" "\<not> digit7 l" by (auto simp: list_all_iff)
  with Some show ?thesis by (simp add: lower_char_def)
qed

lemma upper_char_shape: "if digit7 c then upper_char c = c else \<not> digit7 (upper_char c)"
proof (cases "map_of (zip ascii_lowercase ascii_uppercase) c")
  case None
  then show ?thesis by (simp add: upper_char_def)
next
  case (Some u)
  then have "(c, u) \<in> set (zip ascii_lowercase ascii_uppercase)" by (rule map_of_SomeD)
  then have "c \<in> set ascii_lowercase" "u \<in> set ascii_uppercase"
    by (auto dest: set_zip_leftD set_zip_rightD)
  with ascii_letters have "\<not> digit7 c" "\<not> digit7 u" by (auto simp: list_all_iff)
  with Some show ?thesis by (simp add: upper_char_def)
qed

lemma title_from_shape:
  "list_all2 (\<lambda>c d. if digit7 c then d = c else \<not> digit7 d) s (title_from previous_is_cased s)"
proof (induction s arbitrary: previous_is_cased)
  case Nil
  then show ?case by simp
next
  case (Cons c s)
  then show ?case using lower_char_shape [of c] upper_char_shape [of c] by simp
qed

lemma replace_char_shape:
  "\<not> digit7 old \<Longrightarrow> \<not> digit7 new \<Longrightarrow>
   list_all2 (\<lambda>c d. if digit7 c then d = c else \<not> digit7 d) s (replace_char old new s)"
  by (auto simp: replace_char_def list_all2_map2 list_all2_same)

lemma rfind_char_found:
  "rfind_char s c \<noteq> - 1 \<Longrightarrow>
   0 \<le> rfind_char s c \<and> nat (rfind_char s c) < length s \<and> s ! nat (rfind_char s c) = c"
proof (induction s)
  case Nil
  then show ?case by simp
next
  case (Cons x s)
  show ?case
  proof (cases "rfind_char s c = - 1")
    case True
    with Cons.prems show ?thesis by (simp add: Let_def split: if_splits)
  next
    case False
    with Cons.IH have "0 \<le> rfind_char s c" "nat (rfind_char s c) < length s"
      "s ! nat (rfind_char s c) = c" by simp_all
    with False show ?thesis by (simp add: Let_def nat_add_distrib)
  qed
qed

lemma valid_utf8_stem: "valid_utf8 img \<Longrightarrow> valid_utf8 (stem img)"
proof -
  assume valid: "valid_utf8 img"
  let ?i = "rfind_char img (CHR ''.'')"
  show ?thesis
  proof (cases "0 < ?i \<and> ?i < int (length img) - 1")
    case True
    then have "?i \<noteq> - 1" by simp
    from rfind_char_found [OF this]
    have "nat ?i < length img" "img ! nat ?i = CHR ''.''" by simp_all
    then have "valid_utf8 (take (nat ?i) img)"
      using valid by (intro valid_utf8_take) simp_all
    with True show ?thesis by (simp add: stem_def Let_def)
  next
    case False
    with valid show ?thesis by (auto simp: stem_def Let_def)
  qed
qed

lemma valid_utf8_alt_text: "valid_utf8 img \<Longrightarrow> valid_utf8 (alt_text img)"
  unfolding alt_text_def title_def
  by (intro valid_utf8_same_shape [OF title_from_shape]
        valid_utf8_same_shape [OF replace_char_shape] valid_utf8_stem) simp_all

lemma str_nat_digits: "set (str_nat n) \<subseteq> set ''0123456789''"
proof (induction n rule: str_nat.induct)
  case (1 n)
  have d: "digit k \<in> set ''0123456789''" if "k < 10" for k
    unfolding digit_def using that by (intro nth_mem) simp
  show ?case
  proof (cases "n < 10")
    case True
    then show ?thesis using d [of n] by (subst str_nat.simps) simp
  next
    case False
    with "1" have "set (str_nat (n div 10)) \<subseteq> set ''0123456789''" by simp
    moreover have "digit (n mod 10) \<in> set ''0123456789''" by (rule d) simp
    ultimately show ?thesis using False by (subst str_nat.simps) simp
  qed
qed

lemma str_nat_ascii: "list_all (\<lambda>c. \<not> digit7 c) (str_nat n)"
proof -
  have "list_all (\<lambda>c. \<not> digit7 c) ''0123456789''" by simp
  with str_nat_digits [of n] show ?thesis by (auto simp: list_all_iff)
qed

lemma valid_utf8_str_nat: "valid_utf8 (str_nat n)"
  by (rule valid_utf8_ascii) (rule str_nat_ascii)

lemma digit_value_digit: "k < 10 \<Longrightarrow> digit_value (digit k) = k"
proof -
  assume "k < 10"
  then have "k \<in> {0, 1, 2, 3, 4, 5, 6, 7, 8, 9}" by auto
  then show ?thesis by (auto simp: digit_value_def digit_def)
qed

lemma decimal_value_snoc: "decimal_value (s @ [c]) = 10 * decimal_value s + digit_value c"
  by (simp add: decimal_value_def)

lemma decimal_value_str_nat: "decimal_value (str_nat n) = n"
proof (induction n rule: str_nat.induct)
  case (1 n)
  show ?case
  proof (cases "n < 10")
    case True
    then show ?thesis
      by (subst str_nat.simps) (simp add: decimal_value_def digit_value_digit)
  next
    case False
    with "1" have "decimal_value (str_nat (n div 10)) = n div 10" by simp
    with False show ?thesis
      by (subst str_nat.simps) (simp add: decimal_value_snoc digit_value_digit)
  qed
qed

section \<open>What the renderer writes\<close>

lemma filter_buttons_groups:
  "set (map fst items) \<subseteq> set (map fst CATEGORIES) \<Longrightarrow>
   filter_buttons items
     (\<lambda>cat_id. if cat_id \<in> set (map fst CATEGORIES) then Some (group_of images cat_id) else None)
   = Inr (map (\<lambda>(cat_id, info). category_button cat_id info (length (group_of images cat_id)))
            (filter (\<lambda>(cat_id, info). group_of images cat_id \<noteq> []) items))"
proof (induction items)
  case Nil
  then show ?case by simp
next
  case (Cons item items)
  obtain cat_id info where item: "item = (cat_id, info)" by (cases item)
  from Cons.prems have rest: "set (map fst items) \<subseteq> set (map fst CATEGORIES)"
    and key: "cat_id \<in> set (map fst CATEGORIES)" by (auto simp: item)
  show ?case using Cons.IH [OF rest] key by (simp add: item Let_def)
qed

lemma image_blocks_groups:
  "set keys \<subseteq> set (map fst CATEGORIES) \<Longrightarrow>
   image_blocks keys
     (\<lambda>cat_id. if cat_id \<in> set (map fst CATEGORIES) then Some (group_of images cat_id) else None)
   = Inr (concat (map (\<lambda>cat_id. map (gallery_item cat_id) (group_of images cat_id)) keys))"
proof (induction keys)
  case Nil
  then show ?case by simp
next
  case (Cons cat_id keys)
  from Cons.prems have rest: "set keys \<subseteq> set (map fst CATEGORIES)"
    and key: "cat_id \<in> set (map fst CATEGORIES)" by auto
  show ?case using Cons.IH [OF rest] key by simp
qed

lemma breakdown_keeps_files:
  "set (map fst items) \<subseteq> set (map fst CATEGORIES) \<Longrightarrow>
   \<exists>w'. breakdown items
     (\<lambda>cat_id. if cat_id \<in> set (map fst CATEGORIES) then Some (group_of images cat_id) else None) w
      = Inr w'
     \<and> gallery_generated_html w' = gallery_generated_html w"
proof (induction items arbitrary: w)
  case Nil
  then show ?case by simp
next
  case (Cons item items)
  obtain cat_id info where item: "item = (cat_id, info)" by (cases item)
  from Cons.prems have rest: "set (map fst items) \<subseteq> set (map fst CATEGORIES)"
    and key: "cat_id \<in> set (map fst CATEGORIES)" by (auto simp: item)
  show ?case
    using Cons.IH [OF rest, of "print (Category_images (name info) (length (group_of images cat_id))) w"]
          Cons.IH [OF rest, of w] key
    by (auto simp: item Let_def print_def)
qed

lemma html_parts_groups:
  "html_parts images
     (\<lambda>cat_id. if cat_id \<in> set (map fst CATEGORIES) then Some (group_of images cat_id) else None)
   = Inr ([all_button (length images)]
          @ map (\<lambda>(cat_id, info). category_button cat_id info (length (group_of images cat_id)))
              (filter (\<lambda>(cat_id, info). group_of images cat_id \<noteq> []) CATEGORIES)
          @ [filters_end, grid_start]
          @ concat (map (\<lambda>cat_id. map (gallery_item cat_id) (group_of images cat_id))
              (map fst CATEGORIES))
          @ [grid_end])"
  unfolding html_parts_def
  by (simp only: filter_buttons_groups [OF subset_refl] image_blocks_groups [OF subset_refl]
        sum.case)

lemma CATEGORIES_ascii:
  "(cat_id, info) \<in> set CATEGORIES \<Longrightarrow>
   list_all (\<lambda>c. \<not> digit7 c) cat_id \<and> list_all (\<lambda>c. \<not> digit7 c) (icon info)
   \<and> list_all (\<lambda>c. \<not> digit7 c) (name info)"
  by (auto simp: CATEGORIES_def)

lemma valid_utf8_all_button: "valid_utf8 (all_button n)"
  by (simp add: all_button_def valid_utf8_Cons_ascii valid_utf8_append_valid valid_utf8_str_nat
        valid_utf8_Nil)

lemma valid_utf8_category_button:
  "(cat_id, info) \<in> set CATEGORIES \<Longrightarrow> valid_utf8 (category_button cat_id info count)"
  using CATEGORIES_ascii [of cat_id info]
  by (simp add: category_button_def valid_utf8_Cons_ascii valid_utf8_append_valid
        valid_utf8_str_nat valid_utf8_ascii valid_utf8_Nil)

lemma valid_utf8_gallery_item:
  "(cat_id, info) \<in> set CATEGORIES \<Longrightarrow> valid_utf8 img \<Longrightarrow> valid_utf8 (gallery_item cat_id img)"
  using CATEGORIES_ascii [of cat_id info]
  by (simp add: gallery_item_def as_posix_def valid_utf8_Cons_ascii valid_utf8_append_valid
        valid_utf8_alt_text valid_utf8_ascii valid_utf8_Nil)

lemma valid_utf8_rendered:
  assumes "\<forall>img \<in> set images. valid_utf8 img"
  shows "valid_utf8 (join ''\<newline>''
          ([all_button (length images)]
          @ map (\<lambda>(cat_id, info). category_button cat_id info (length (group_of images cat_id)))
              (filter (\<lambda>(cat_id, info). group_of images cat_id \<noteq> []) CATEGORIES)
          @ [filters_end, grid_start]
          @ concat (map (\<lambda>cat_id. map (gallery_item cat_id) (group_of images cat_id))
              (map fst CATEGORIES))
          @ [grid_end]))"
proof (rule valid_utf8_join)
  show "valid_utf8 ''\<newline>''" by (simp add: valid_utf8_Cons_ascii valid_utf8_Nil)
  have fixed: "valid_utf8 filters_end" "valid_utf8 grid_start" "valid_utf8 grid_end"
    by (simp_all add: filters_end_def grid_start_def grid_end_def valid_utf8_Cons_ascii
          valid_utf8_Nil)
  have buttons: "\<forall>x \<in> set (map (\<lambda>(cat_id, info). category_button cat_id info
                     (length (group_of images cat_id)))
              (filter (\<lambda>(cat_id, info). group_of images cat_id \<noteq> []) CATEGORIES)). valid_utf8 x"
    by (auto simp: valid_utf8_category_button)
  have blocks: "\<forall>x \<in> set (concat (map (\<lambda>cat_id. map (gallery_item cat_id) (group_of images cat_id))
              (map fst CATEGORIES))). valid_utf8 x"
    using assms by (auto intro: valid_utf8_gallery_item)
  show "\<forall>x \<in> set ([all_button (length images)]
          @ map (\<lambda>(cat_id, info). category_button cat_id info (length (group_of images cat_id)))
              (filter (\<lambda>(cat_id, info). group_of images cat_id \<noteq> []) CATEGORIES)
          @ [filters_end, grid_start]
          @ concat (map (\<lambda>cat_id. map (gallery_item cat_id) (group_of images cat_id))
              (map fst CATEGORIES))
          @ [grid_end]). valid_utf8 x"
    using buttons blocks fixed valid_utf8_all_button [of "length images"]
    unfolding set_append by (simp only: ball_Un) simp
qed

lemma generate_gallery_html_writes:
  assumes "converted_dir w = Some entries" and "images = sort (glob ''.jpg'' entries)"
    and "images \<noteq> []" and "\<forall>img \<in> set images. valid_utf8 img"
  shows "fst (generate_gallery_html w) = Inr ()
     \<and> gallery_generated_html (snd (generate_gallery_html w)) =
         Some (join ''\<newline>''
          ([all_button (length images)]
          @ map (\<lambda>(cat_id, info). category_button cat_id info (length (group_of images cat_id)))
              (filter (\<lambda>(cat_id, info). group_of images cat_id \<noteq> []) CATEGORIES)
          @ [filters_end, grid_start]
          @ concat (map (\<lambda>cat_id. map (gallery_item cat_id) (group_of images cat_id))
              (map fst CATEGORIES))
          @ [grid_end]))"
proof -
  let ?cz = "\<lambda>cat_id. if cat_id \<in> set (map fst CATEGORIES) then Some (group_of images cat_id) else None"
  let ?parts = "[all_button (length images)]
          @ map (\<lambda>(cat_id, info). category_button cat_id info (length (group_of images cat_id)))
              (filter (\<lambda>(cat_id, info). group_of images cat_id \<noteq> []) CATEGORIES)
          @ [filters_end, grid_start]
          @ concat (map (\<lambda>cat_id. map (gallery_item cat_id) (group_of images cat_id))
              (map fst CATEGORIES))
          @ [grid_end]"
  let ?w1 = "print (Found_images (length images)) w"
  let ?w2 = "?w1\<lparr>gallery_generated_html := Some (join ''\<newline>'' ?parts)\<rparr>"
  let ?w3 = "print Category_breakdown (print Gallery_HTML_generated ?w2)"
  obtain w4 where w4: "breakdown CATEGORIES ?cz ?w3 = Inr w4"
    and kept: "gallery_generated_html w4 = gallery_generated_html ?w3"
    using breakdown_keeps_files [OF subset_refl, of images ?w3] by blast
  have written: "write_text (join ''\<newline>'' ?parts) = Inr (join ''\<newline>'' ?parts)"
    using valid_utf8_rendered [OF assms(4)] by (simp add: write_text_def)
  have "generate_gallery_html w = (Inr (), w4)"
    using assms(1) assms(2) [symmetric] assms(3) w4 written
    by (simp add: generate_gallery_html_def Let_def categorize_all_groups html_parts_groups
          del: set_map)
  moreover have "gallery_generated_html ?w3 = Some (join ''\<newline>'' ?parts)"
    by (simp add: print_def)
  ultimately show ?thesis using kept by simp
qed

lemma sublist_join: "p \<in> set parts \<Longrightarrow> sublist p (join sep parts)"
proof (induction sep parts rule: join.induct)
  case (1 sep)
  then show ?case by simp
next
  case (2 sep part)
  then show ?case by simp
next
  case (3 sep part v va)
  show ?case
  proof (cases "p = part")
    case True
    then show ?thesis by simp
  next
    case False
    with "3.prems" have "p \<in> set (v # va)" by simp
    then have "sublist p (join sep (v # va))" by (rule "3.IH")
    then obtain a b where "join sep (v # va) = a @ p @ b" by (auto simp: sublist_def)
    then have "join sep (part # v # va) = (part @ sep @ a) @ p @ b" by simp
    then show ?thesis unfolding sublist_def by blast
  qed
qed

text \<open>A run of bytes between two ASCII characters of a valid text is valid.\<close>

lemma valid_utf8_segment:
  assumes "valid_utf8 (x @ [a] @ s @ [c] @ y)" and "\<not> digit7 a" and "\<not> digit7 c"
  shows "valid_utf8 s"
proof -
  from assms(1) obtain q where q: "utf8_run Start x = Some q"
    and rest: "utf8_run q (a # s @ c # y) = Some Start"
    by (auto simp: valid_utf8_def utf8_run_append split: option.splits)
  from rest assms(2) have "utf8_run Start (s @ c # y) = Some Start"
    by (auto simp: utf8_step_ascii split: if_splits)
  then obtain q' where q': "utf8_run Start s = Some q'"
    and "utf8_run q' (c # y) = Some Start"
    by (auto simp: utf8_run_append split: option.splits)
  with assms(3) have "q' = Start"
    by (auto simp: utf8_step_ascii split: if_splits)
  with q' show ?thesis by (simp add: valid_utf8_def)
qed

lemma gallery_item_in_parts:
  assumes "img \<in> set images"
  shows "gallery_item (categorize_image img) img
     \<in> set ([all_button (length images)]
          @ map (\<lambda>(cat_id, info). category_button cat_id info (length (group_of images cat_id)))
              (filter (\<lambda>(cat_id, info). group_of images cat_id \<noteq> []) CATEGORIES)
          @ [filters_end, grid_start]
          @ concat (map (\<lambda>cat_id. map (gallery_item cat_id) (group_of images cat_id))
              (map fst CATEGORIES))
          @ [grid_end])"
proof -
  have "gallery_item (categorize_image img) img
      \<in> (\<Union>cat_id \<in> set (map fst CATEGORIES). gallery_item cat_id ` set (group_of images cat_id))"
    using assms categorize_image_key [of img]
    by (intro UN_I [of "categorize_image img"] imageI) simp_all
  then have "gallery_item (categorize_image img) img
      \<in> set (concat (map (\<lambda>cat_id. map (gallery_item cat_id) (group_of images cat_id))
              (map fst CATEGORIES)))"
    by simp
  then show ?thesis unfolding set_append by blast
qed

lemma valid_utf8_rendered_iff:
  "valid_utf8 (join ''\<newline>''
          ([all_button (length images)]
          @ map (\<lambda>(cat_id, info). category_button cat_id info (length (group_of images cat_id)))
              (filter (\<lambda>(cat_id, info). group_of images cat_id \<noteq> []) CATEGORIES)
          @ [filters_end, grid_start]
          @ concat (map (\<lambda>cat_id. map (gallery_item cat_id) (group_of images cat_id))
              (map fst CATEGORIES))
          @ [grid_end]))
   \<longleftrightarrow> (\<forall>img \<in> set images. valid_utf8 img)"
proof
  assume "\<forall>img \<in> set images. valid_utf8 img"
  then show "valid_utf8 (join ''\<newline>''
          ([all_button (length images)]
          @ map (\<lambda>(cat_id, info). category_button cat_id info (length (group_of images cat_id)))
              (filter (\<lambda>(cat_id, info). group_of images cat_id \<noteq> []) CATEGORIES)
          @ [filters_end, grid_start]
          @ concat (map (\<lambda>cat_id. map (gallery_item cat_id) (group_of images cat_id))
              (map fst CATEGORIES))
          @ [grid_end]))"
    by (rule valid_utf8_rendered)
next
  let ?parts = "[all_button (length images)]
          @ map (\<lambda>(cat_id, info). category_button cat_id info (length (group_of images cat_id)))
              (filter (\<lambda>(cat_id, info). group_of images cat_id \<noteq> []) CATEGORIES)
          @ [filters_end, grid_start]
          @ concat (map (\<lambda>cat_id. map (gallery_item cat_id) (group_of images cat_id))
              (map fst CATEGORIES))
          @ [grid_end]"
  assume valid: "valid_utf8 (join ''\<newline>'' ?parts)"
  show "\<forall>img \<in> set images. valid_utf8 img"
  proof
    fix img assume "img \<in> set images"
    then have "sublist (gallery_item (categorize_image img) img) (join ''\<newline>'' ?parts)"
      by (intro sublist_join gallery_item_in_parts)
    then obtain a b where ab: "join ''\<newline>'' ?parts = a @ gallery_item (categorize_image img) img @ b"
      by (auto simp: sublist_def)
    define p where \<open>p = ''        <div class="gallery-item" data-category="'' @ categorize_image img
        @ ''">\<newline>          <a href="assets/images/gallery/converted''\<close>
    define r where \<open>r = '' class="glightbox" data-gallery="tozan-gallery">\<newline>            <img src="''
        @ as_posix img @ ''" alt="'' @ alt_text img
        @ ''" loading="lazy" />\<newline>            <div class="gallery-overlay">\<newline>              <i class="bi bi-zoom-in"></i>\<newline>            </div>\<newline>          </a>\<newline>        </div>\<newline>''\<close>
    have item: "gallery_item (categorize_image img) img
        = p @ [CHR ''/''] @ img @ [CHR 0x22] @ r"
      by (simp add: gallery_item_def as_posix_def p_def r_def)
    have "join ''\<newline>'' ?parts = (a @ p) @ [CHR ''/''] @ img @ [CHR 0x22] @ (r @ b)"
      unfolding ab item by simp
    with valid have "valid_utf8 ((a @ p) @ [CHR ''/''] @ img @ [CHR 0x22] @ (r @ b))" by simp
    then show "valid_utf8 img" by (rule valid_utf8_segment) simp_all
  qed
qed

lemma generate_gallery_html_raises:
  assumes "converted_dir w = Some entries" and "images = sort (glob ''.jpg'' entries)"
    and "images \<noteq> []" and "\<not> (\<forall>img \<in> set images. valid_utf8 img)"
  shows "fst (generate_gallery_html w) = Inl UnicodeEncodeError
     \<and> gallery_generated_html (snd (generate_gallery_html w)) = Some []"
proof -
  let ?parts = "[all_button (length images)]
          @ map (\<lambda>(cat_id, info). category_button cat_id info (length (group_of images cat_id)))
              (filter (\<lambda>(cat_id, info). group_of images cat_id \<noteq> []) CATEGORIES)
          @ [filters_end, grid_start]
          @ concat (map (\<lambda>cat_id. map (gallery_item cat_id) (group_of images cat_id))
              (map fst CATEGORIES))
          @ [grid_end]"
  have refused: "write_text (join ''\<newline>'' ?parts) = Inl UnicodeEncodeError"
    using assms(4) valid_utf8_rendered_iff [of images] by (simp add: write_text_def)
  show ?thesis
    using assms(1) assms(2) [symmetric] assms(3) refused
    by (simp add: generate_gallery_html_def Let_def categorize_all_groups html_parts_groups
          del: set_map)
qed

lemma join_snoc: "join sep (xs @ [y]) = concat (map (\<lambda>x. x @ sep) xs) @ y"
proof (induction xs)
  case Nil
  then show ?case by simp
next
  case (Cons x xs)
  obtain z zs where "xs @ [y] = z # zs" by (cases "xs @ [y]") simp_all
  with Cons show ?case by simp
qed

section \<open>The counts on the filter controls\<close>

lemma sum_list_positive_only:
  "(\<Sum>x\<leftarrow>filter (\<lambda>x. 0 < f x) xs. f x) = (\<Sum>x\<leftarrow>xs. (f x :: nat))"
  by (induction xs) auto

lemma rendered_text:
  "join sep ([a] @ buttons @ [fe, gs] @ blocks @ [ge]) =
     a @ sep @ concat (map (\<lambda>x. x @ sep) buttons) @ fe @ sep @ gs @ sep
     @ concat (map (\<lambda>x. x @ sep) blocks) @ ge"
proof -
  have "[a] @ buttons @ [fe, gs] @ blocks @ [ge] = (a # buttons @ [fe, gs] @ blocks) @ [ge]"
    by simp
  then show ?thesis by (simp only: join_snoc) simp
qed

lemma concat_map_concat:
  "concat (map f (concat xss)) = concat (map (\<lambda>xs. concat (map f xs)) xss)"
  by (induction xss) simp_all

lemma group_sizes_total:
  "(\<Sum>(cat_id, info)\<leftarrow>filter (\<lambda>(cat_id, info). 0 < length (group_of images cat_id)) CATEGORIES.
      length (group_of images cat_id)) = length images"
proof -
  let ?count = "\<lambda>item :: string \<times> cat_info. length (group_of images (fst item))"
  have shown: "(\<lambda>(cat_id, info). 0 < length (group_of images cat_id)) = (\<lambda>item. 0 < ?count item)"
    "(\<lambda>(cat_id, info :: cat_info). length (group_of images cat_id)) = ?count"
    by (auto simp: fun_eq_iff)
  have "(\<Sum>item\<leftarrow>filter (\<lambda>item. 0 < ?count item) CATEGORIES. ?count item)
        = (\<Sum>item\<leftarrow>CATEGORIES. ?count item)"
    by (rule sum_list_positive_only)
  also have "\<dots> = (\<Sum>cat_id\<leftarrow>map fst CATEGORIES. length (group_of images cat_id))"
    by (simp add: o_def)
  also have "\<dots> = length images"
    using distinct_category_ids categorize_image_key by (intro group_sizes_sum) auto
  finally show ?thesis unfolding shown .
qed

text \<open>
  Claim C3. Let \<open>images\<close> be the sorted list of the \<open>*.jpg\<close> entries, not empty.
  When every name is valid UTF-8, the run returns and the fragment written starts with the
  "all" control, whose count is the decimal numeral of the number of images, followed by one
  control per category with a non-empty group, whose count is the decimal numeral of the
  size of the group. When some name is not valid UTF-8, the write raises and leaves the
  fragment file empty, with no control in it. The numerals are strings of decimal digits,
  the numeral on the "all" control reads as the number of images, and the numbers that the
  numerals on the category controls read as add up to the number of images.
\<close>

theorem all_count_is_total:
  assumes "converted_dir w = Some entries"
    and "images = sort (filter (suffix ''.jpg'') entries)"
    and "images \<noteq> []"
  shows \<open>(if \<forall>img \<in> set images. valid_utf8 img
      then fst (generate_gallery_html w) = Inr ()
        \<and> (\<exists>grid. gallery_generated_html (snd (generate_gallery_html w)) =
            Some (''      <div class="gallery-filters mb-4 text-center">\<newline>        <button class="btn btn-outline-primary active" data-filter="all">\<newline>          <i class="bi bi-grid-3x3"></i> All ('' @ str_nat (length images) @ '')\<newline>        </button>\<newline>''
              @ concat (map (\<lambda>(cat_id, info).
              ''        <button class="btn btn-outline-primary" data-filter="'' @ cat_id @ ''">\<newline>          <i class="bi bi-'' @ icon info @ ''"></i> '' @ name info @ '' (''
              @ str_nat (length (group_of images cat_id)) @ '')\<newline>        </button>\<newline>'')
            (filter (\<lambda>(cat_id, info). 0 < length (group_of images cat_id)) CATEGORIES))
              @ ''      </div>\<newline>\<newline>'' @ grid))
      else fst (generate_gallery_html w) = Inl UnicodeEncodeError
        \<and> gallery_generated_html (snd (generate_gallery_html w)) = Some [])
    \<and> set (str_nat (length images)) \<subseteq> set ''0123456789''
    \<and> decimal_value (str_nat (length images)) = length images
    \<and> (\<Sum>(cat_id, info)\<leftarrow>filter (\<lambda>(cat_id, info). 0 < length (group_of images cat_id)) CATEGORIES.
          decimal_value (str_nat (length (group_of images cat_id)))) = length images\<close>
proof -
  let ?grid = "grid_start @ ''\<newline>''
      @ concat (map (\<lambda>x. x @ ''\<newline>'')
          (concat (map (\<lambda>cat_id. map (gallery_item cat_id) (group_of images cat_id))
              (map fst CATEGORIES))))
      @ grid_end"
  from assms(2) have images: "images = sort (glob ''.jpg'' entries)" by (simp add: glob_def)
  have total: "(\<Sum>(cat_id, info)\<leftarrow>filter (\<lambda>(cat_id, info). 0 < length (group_of images cat_id)) CATEGORIES.
          decimal_value (str_nat (length (group_of images cat_id)))) = length images"
    unfolding decimal_value_str_nat by (rule group_sizes_total)
  have counts: "set (str_nat (length images)) \<subseteq> set ''0123456789''"
    "decimal_value (str_nat (length images)) = length images"
    by (rule str_nat_digits, rule decimal_value_str_nat)
  show ?thesis
  proof (cases "\<forall>img \<in> set images. valid_utf8 img")
    case True
    from generate_gallery_html_writes [OF assms(1) images assms(3) True]
    have returns: "fst (generate_gallery_html w) = Inr ()"
      and written: "gallery_generated_html (snd (generate_gallery_html w)) =
         Some (join ''\<newline>''
          ([all_button (length images)]
          @ map (\<lambda>(cat_id, info). category_button cat_id info (length (group_of images cat_id)))
              (filter (\<lambda>(cat_id, info). group_of images cat_id \<noteq> []) CATEGORIES)
          @ [filters_end, grid_start]
          @ concat (map (\<lambda>cat_id. map (gallery_item cat_id) (group_of images cat_id))
              (map fst CATEGORIES))
          @ [grid_end]))" by blast+
    have content: \<open>gallery_generated_html (snd (generate_gallery_html w)) =
          Some (''      <div class="gallery-filters mb-4 text-center">\<newline>        <button class="btn btn-outline-primary active" data-filter="all">\<newline>          <i class="bi bi-grid-3x3"></i> All ('' @ str_nat (length images) @ '')\<newline>        </button>\<newline>''
            @ concat (map (\<lambda>(cat_id, info).
              ''        <button class="btn btn-outline-primary" data-filter="'' @ cat_id @ ''">\<newline>          <i class="bi bi-'' @ icon info @ ''"></i> '' @ name info @ '' (''
              @ str_nat (length (group_of images cat_id)) @ '')\<newline>        </button>\<newline>'')
            (filter (\<lambda>(cat_id, info). 0 < length (group_of images cat_id)) CATEGORIES))
            @ ''      </div>\<newline>\<newline>'' @ ?grid)\<close>
      unfolding written rendered_text
      by (simp add: all_button_def category_button_def filters_end_def o_def case_prod_unfold)
    from content have shown: \<open>\<exists>grid. gallery_generated_html (snd (generate_gallery_html w)) =
            Some (''      <div class="gallery-filters mb-4 text-center">\<newline>        <button class="btn btn-outline-primary active" data-filter="all">\<newline>          <i class="bi bi-grid-3x3"></i> All ('' @ str_nat (length images) @ '')\<newline>        </button>\<newline>''
              @ concat (map (\<lambda>(cat_id, info).
              ''        <button class="btn btn-outline-primary" data-filter="'' @ cat_id @ ''">\<newline>          <i class="bi bi-'' @ icon info @ ''"></i> '' @ name info @ '' (''
              @ str_nat (length (group_of images cat_id)) @ '')\<newline>        </button>\<newline>'')
            (filter (\<lambda>(cat_id, info). 0 < length (group_of images cat_id)) CATEGORIES))
              @ ''      </div>\<newline>\<newline>'' @ grid)\<close>
      by blast
    show ?thesis unfolding if_P [OF True] using returns shown total counts by blast
  next
    case False
    show ?thesis unfolding if_not_P [OF False]
      using generate_gallery_html_raises [OF assms(1) images assms(3) False] total counts
      by blast
  qed
qed

lemmas cat_eval = categorize_image_def CATEGORIES_def str_eval

text \<open>
  Claim C3 at a directory with two \<open>.jpg\<close> entries and one other file: the fragment
  starts with the controls \<open>All (2)\<close>, \<open>Mount Fuji (1)\<close> and \<open>Other Moments (1)\<close>.
\<close>

theorem all_count_is_total_witness:
  \<open>sort (filter (suffix ''.jpg'') [''fuji-1.jpg'', ''b.jpg'', ''notes.txt'']) = [''b.jpg'', ''fuji-1.jpg'']
   \<and> valid_utf8 ''b.jpg'' \<and> valid_utf8 ''fuji-1.jpg''
   \<and> (\<exists>grid.
      gallery_generated_html (snd (generate_gallery_html
         \<lparr>converted_dir = Some [''fuji-1.jpg'', ''b.jpg'', ''notes.txt''],
          gallery_generated_html = None, index_html = None, image_list_js = None,
          console = []\<rparr>)) =
        Some (''      <div class="gallery-filters mb-4 text-center">\<newline>        <button class="btn btn-outline-primary active" data-filter="all">\<newline>          <i class="bi bi-grid-3x3"></i> All (2)\<newline>        </button>\<newline>        <button class="btn btn-outline-primary" data-filter="fuji">\<newline>          <i class="bi bi-mountain"></i> Mount Fuji (1)\<newline>        </button>\<newline>        <button class="btn btn-outline-primary" data-filter="misc">\<newline>          <i class="bi bi-camera"></i> Other Moments (1)\<newline>        </button>\<newline>      </div>\<newline>\<newline>'' @ grid))\<close>
proof -
  let ?w = "\<lparr>converted_dir = Some [''fuji-1.jpg'', ''b.jpg'', ''notes.txt''],
          gallery_generated_html = None, index_html = None, image_list_js = None,
          console = []\<rparr>"
  let ?images = "[''b.jpg'', ''fuji-1.jpg'']"
  have h1: "converted_dir ?w = Some [''fuji-1.jpg'', ''b.jpg'', ''notes.txt'']" by simp
  have h2: "?images = sort (filter (suffix ''.jpg'') [''fuji-1.jpg'', ''b.jpg'', ''notes.txt''])"
    by (simp add: suffix_to_prefix)
  have h3: "?images \<noteq> []" by simp
  have v: "valid_utf8 ''b.jpg''" "valid_utf8 ''fuji-1.jpg''"
    by (simp_all add: valid_utf8_def)
  then have h4: "\<forall>img \<in> set ?images. valid_utf8 img" by simp
  have c1: "categorize_image ''b.jpg'' = ''misc''" by (simp add: cat_eval)
  have c2: "categorize_image ''fuji-1.jpg'' = ''fuji''" by (simp add: cat_eval)
  from all_count_is_total [OF h1 h2 h3, unfolded if_P [OF h4]] obtain grid where
    \<open>gallery_generated_html (snd (generate_gallery_html ?w)) =
        Some (''      <div class="gallery-filters mb-4 text-center">\<newline>        <button class="btn btn-outline-primary active" data-filter="all">\<newline>          <i class="bi bi-grid-3x3"></i> All ('' @ str_nat (length [''b.jpg'', ''fuji-1.jpg'']) @ '')\<newline>        </button>\<newline>''
          @ concat (map (\<lambda>(cat_id, info).
              ''        <button class="btn btn-outline-primary" data-filter="'' @ cat_id @ ''">\<newline>          <i class="bi bi-'' @ icon info @ ''"></i> '' @ name info @ '' (''
              @ str_nat (length (group_of [''b.jpg'', ''fuji-1.jpg''] cat_id)) @ '')\<newline>        </button>\<newline>'')
            (filter (\<lambda>(cat_id, info). 0 < length (group_of [''b.jpg'', ''fuji-1.jpg''] cat_id)) CATEGORIES))
          @ ''      </div>\<newline>\<newline>'' @ grid)\<close>
    by blast
  then have \<open>gallery_generated_html (snd (generate_gallery_html ?w)) =
        Some (''      <div class="gallery-filters mb-4 text-center">\<newline>        <button class="btn btn-outline-primary active" data-filter="all">\<newline>          <i class="bi bi-grid-3x3"></i> All (2)\<newline>        </button>\<newline>        <button class="btn btn-outline-primary" data-filter="fuji">\<newline>          <i class="bi bi-mountain"></i> Mount Fuji (1)\<newline>        </button>\<newline>        <button class="btn btn-outline-primary" data-filter="misc">\<newline>          <i class="bi bi-camera"></i> Other Moments (1)\<newline>        </button>\<newline>      </div>\<newline>\<newline>'' @ grid)\<close>
    by (simp add: c1 c2 CATEGORIES_def str_nat.simps digit_def)
  with h2 v show ?thesis by auto
qed

section \<open>The order of the output\<close>

text \<open>
  Claim C5. Let \<open>images\<close> be the sorted list of the \<open>*.jpg\<close> entries, not empty.
  When every name is valid UTF-8, the fragment written is, character by character: the
  "all" control, then the controls of the categories with a non-empty group in the order of
  the table, then the opening of the grid, then the image blocks category by category in
  the order of the table, the blocks of one category in the order of its group, then the
  closing of the grid. When some name is not valid UTF-8, the write raises and leaves the
  fragment file empty. A group is a subsequence of the sorted directory listing, and so is
  sorted itself.
\<close>

theorem output_in_table_order:
  assumes "converted_dir w = Some entries"
    and "images = sort (filter (suffix ''.jpg'') entries)"
    and "images \<noteq> []"
  shows \<open>(if \<forall>img \<in> set images. valid_utf8 img
      then fst (generate_gallery_html w) = Inr ()
        \<and> gallery_generated_html (snd (generate_gallery_html w)) =
            Some (''      <div class="gallery-filters mb-4 text-center">\<newline>        <button class="btn btn-outline-primary active" data-filter="all">\<newline>          <i class="bi bi-grid-3x3"></i> All ('' @ str_nat (length images) @ '')\<newline>        </button>\<newline>''
              @ concat (map (\<lambda>(cat_id, info).
              ''        <button class="btn btn-outline-primary" data-filter="'' @ cat_id @ ''">\<newline>          <i class="bi bi-'' @ icon info @ ''"></i> '' @ name info @ '' (''
              @ str_nat (length (group_of images cat_id)) @ '')\<newline>        </button>\<newline>'')
            (filter (\<lambda>(cat_id, info). 0 < length (group_of images cat_id)) CATEGORIES))
              @ ''      </div>\<newline>\<newline>      <div class="gallery-grid">\<newline>\<newline>''
              @ concat (map (\<lambda>cat_id. concat (map (\<lambda>img.
              ''        <div class="gallery-item" data-category="'' @ cat_id @ ''">\<newline>          <a href="assets/images/gallery/converted/'' @ img @ ''" class="glightbox" data-gallery="tozan-gallery">\<newline>            <img src="assets/images/gallery/converted/'' @ img @ ''" alt="'' @ alt_text img @ ''" loading="lazy" />\<newline>            <div class="gallery-overlay">\<newline>              <i class="bi bi-zoom-in"></i>\<newline>            </div>\<newline>          </a>\<newline>        </div>\<newline>\<newline>'')
              (group_of images cat_id)))
            (map fst CATEGORIES))
              @ ''      </div>'')
      else fst (generate_gallery_html w) = Inl UnicodeEncodeError
        \<and> gallery_generated_html (snd (generate_gallery_html w)) = Some [])
    \<and> (\<forall>cat_id. sorted (group_of images cat_id) \<and> subseq (group_of images cat_id) images)\<close>
proof -
  from assms(2) have images: "images = sort (glob ''.jpg'' entries)" by (simp add: glob_def)
  have "sorted images" using assms(2) by simp
  then have groups: "\<forall>cat_id. sorted (group_of images cat_id) \<and> subseq (group_of images cat_id) images"
    by (simp add: sorted_wrt_filter)
  show ?thesis
  proof (cases "\<forall>img \<in> set images. valid_utf8 img")
    case True
    from generate_gallery_html_writes [OF assms(1) images assms(3) True]
    have returns: "fst (generate_gallery_html w) = Inr ()"
      and written: "gallery_generated_html (snd (generate_gallery_html w)) =
         Some (join ''\<newline>''
          ([all_button (length images)]
          @ map (\<lambda>(cat_id, info). category_button cat_id info (length (group_of images cat_id)))
              (filter (\<lambda>(cat_id, info). group_of images cat_id \<noteq> []) CATEGORIES)
          @ [filters_end, grid_start]
          @ concat (map (\<lambda>cat_id. map (gallery_item cat_id) (group_of images cat_id))
              (map fst CATEGORIES))
          @ [grid_end]))" by blast+
    have content: \<open>gallery_generated_html (snd (generate_gallery_html w)) =
          Some (''      <div class="gallery-filters mb-4 text-center">\<newline>        <button class="btn btn-outline-primary active" data-filter="all">\<newline>          <i class="bi bi-grid-3x3"></i> All ('' @ str_nat (length images) @ '')\<newline>        </button>\<newline>''
            @ concat (map (\<lambda>(cat_id, info).
              ''        <button class="btn btn-outline-primary" data-filter="'' @ cat_id @ ''">\<newline>          <i class="bi bi-'' @ icon info @ ''"></i> '' @ name info @ '' (''
              @ str_nat (length (group_of images cat_id)) @ '')\<newline>        </button>\<newline>'')
            (filter (\<lambda>(cat_id, info). 0 < length (group_of images cat_id)) CATEGORIES))
            @ ''      </div>\<newline>\<newline>      <div class="gallery-grid">\<newline>\<newline>''
            @ concat (map (\<lambda>cat_id. concat (map (\<lambda>img.
              ''        <div class="gallery-item" data-category="'' @ cat_id @ ''">\<newline>          <a href="assets/images/gallery/converted/'' @ img @ ''" class="glightbox" data-gallery="tozan-gallery">\<newline>            <img src="assets/images/gallery/converted/'' @ img @ ''" alt="'' @ alt_text img @ ''" loading="lazy" />\<newline>            <div class="gallery-overlay">\<newline>              <i class="bi bi-zoom-in"></i>\<newline>            </div>\<newline>          </a>\<newline>        </div>\<newline>\<newline>'')
              (group_of images cat_id)))
            (map fst CATEGORIES))
            @ ''      </div>'')\<close>
      unfolding written rendered_text
      by (simp add: all_button_def category_button_def filters_end_def grid_start_def grid_end_def
            gallery_item_def as_posix_def o_def case_prod_unfold concat_map_concat)
    show ?thesis unfolding if_P [OF True] using returns content groups by blast
  next
    case False
    show ?thesis unfolding if_not_P [OF False]
      using generate_gallery_html_raises [OF assms(1) images assms(3) False] groups
      by blast
  qed
qed

text \<open>
  Claim C5 at a directory listing \<open>fuji-1.jpg\<close>, \<open>b.jpg\<close> and a text file: the whole
  fragment, in which the control and the block of \<open>fuji\<close> come before those of
  \<open>misc\<close>, as in the table, although \<open>b.jpg\<close> sorts first.
\<close>

theorem output_in_table_order_witness:
  \<open>gallery_generated_html (snd (generate_gallery_html
         \<lparr>converted_dir = Some [''fuji-1.jpg'', ''b.jpg'', ''notes.txt''],
          gallery_generated_html = None, index_html = None, image_list_js = None,
          console = []\<rparr>)) =
     Some ''      <div class="gallery-filters mb-4 text-center">\<newline>        <button class="btn btn-outline-primary active" data-filter="all">\<newline>          <i class="bi bi-grid-3x3"></i> All (2)\<newline>        </button>\<newline>        <button class="btn btn-outline-primary" data-filter="fuji">\<newline>          <i class="bi bi-mountain"></i> Mount Fuji (1)\<newline>        </button>\<newline>        <button class="btn btn-outline-primary" data-filter="misc">\<newline>          <i class="bi bi-camera"></i> Other Moments (1)\<newline>        </button>\<newline>      </div>\<newline>\<newline>      <div class="gallery-grid">\<newline>\<newline>        <div class="gallery-item" data-category="fuji">\<newline>          <a href="assets/images/gallery/converted/fuji-1.jpg" class="glightbox" data-gallery="tozan-gallery">\<newline>            <img src="assets/images/gallery/converted/fuji-1.jpg" alt="Fuji 1" loading="lazy" />\<newline>            <div class="gallery-overlay">\<newline>              <i class="bi bi-zoom-in"></i>\<newline>            </div>\<newline>          </a>\<newline>        </div>\<newline>\<newline>        <div class="gallery-item" data-category="misc">\<newline>          <a href="assets/images/gallery/converted/b.jpg" class="glightbox" data-gallery="tozan-gallery">\<newline>            <img src="assets/images/gallery/converted/b.jpg" alt="B" loading="lazy" />\<newline>            <div class="gallery-overlay">\<newline>              <i class="bi bi-zoom-in"></i>\<newline>            </div>\<newline>          </a>\<newline>        </div>\<newline>\<newline>      </div>''\<close>
proof -
  let ?w = "\<lparr>converted_dir = Some [''fuji-1.jpg'', ''b.jpg'', ''notes.txt''],
          gallery_generated_html = None, index_html = None, image_list_js = None,
          console = []\<rparr>"
  let ?images = "[''b.jpg'', ''fuji-1.jpg'']"
  have h1: "converted_dir ?w = Some [''fuji-1.jpg'', ''b.jpg'', ''notes.txt'']" by simp
  have h2: "?images = sort (filter (suffix ''.jpg'') [''fuji-1.jpg'', ''b.jpg'', ''notes.txt''])"
    by (simp add: suffix_to_prefix)
  have h3: "?images \<noteq> []" by simp
  have h4: "\<forall>img \<in> set ?images. valid_utf8 img" by (simp add: valid_utf8_def)
  have c1: "categorize_image ''b.jpg'' = ''misc''" by (simp add: cat_eval)
  have c2: "categorize_image ''fuji-1.jpg'' = ''fuji''" by (simp add: cat_eval)
  have a1: "alt_text ''b.jpg'' = ''B''"
    by (simp add: alt_text_def stem_def title_def replace_char_def is_cased_def upper_char_def
          lower_char_def ascii_uppercase_def ascii_lowercase_def)
  have a2: "alt_text ''fuji-1.jpg'' = ''Fuji 1''"
    by (simp add: alt_text_def stem_def title_def replace_char_def is_cased_def upper_char_def
          lower_char_def ascii_uppercase_def ascii_lowercase_def)
  from output_in_table_order [OF h1 h2 h3, unfolded if_P [OF h4]]
  have \<open>gallery_generated_html (snd (generate_gallery_html ?w)) =
        Some (''      <div class="gallery-filters mb-4 text-center">\<newline>        <button class="btn btn-outline-primary active" data-filter="all">\<newline>          <i class="bi bi-grid-3x3"></i> All ('' @ str_nat (length [''b.jpg'', ''fuji-1.jpg'']) @ '')\<newline>        </button>\<newline>''
          @ concat (map (\<lambda>(cat_id, info).
              ''        <button class="btn btn-outline-primary" data-filter="'' @ cat_id @ ''">\<newline>          <i class="bi bi-'' @ icon info @ ''"></i> '' @ name info @ '' (''
              @ str_nat (length (group_of [''b.jpg'', ''fuji-1.jpg''] cat_id)) @ '')\<newline>        </button>\<newline>'')
            (filter (\<lambda>(cat_id, info). 0 < length (group_of [''b.jpg'', ''fuji-1.jpg''] cat_id)) CATEGORIES))
          @ ''      </div>\<newline>\<newline>      <div class="gallery-grid">\<newline>\<newline>''
          @ concat (map (\<lambda>cat_id. concat (map (\<lambda>img.
              ''        <div class="gallery-item" data-category="'' @ cat_id @ ''">\<newline>          <a href="assets/images/gallery/converted/'' @ img @ ''" class="glightbox" data-gallery="tozan-gallery">\<newline>            <img src="assets/images/gallery/converted/'' @ img @ ''" alt="'' @ alt_text img @ ''" loading="lazy" />\<newline>            <div class="gallery-overlay">\<newline>              <i class="bi bi-zoom-in"></i>\<newline>            </div>\<newline>          </a>\<newline>        </div>\<newline>\<newline>'')
              (group_of [''b.jpg'', ''fuji-1.jpg''] cat_id)))
            (map fst CATEGORIES))
          @ ''      </div>'')\<close>
    by blast
  then show ?thesis
    by (simp add: c1 c2 a1 a2 CATEGORIES_def str_nat.simps digit_def)
qed

section \<open>No images, no fragment\<close>

text \<open>
  Claim C7, as amended. When the directory holds no \<open>*.jpg\<close> entry,
  \<open>generate_gallery_html\<close> prints that no images were found and returns; it writes no
  fragment, so \<open>gallery_generated.html\<close> is as it was before the run.
\<close>

theorem no_images_no_output:
  assumes "converted_dir w = Some entries" and "glob ''.jpg'' entries = []"
  shows "generate_gallery_html w = (Inr (), print No_images_found w)
     \<and> gallery_generated_html (snd (generate_gallery_html w)) = gallery_generated_html w"
  using assms by (simp add: generate_gallery_html_def print_def)

text \<open>The amended claim C7 at a directory that holds only a text file.\<close>

theorem no_images_no_output_witness:
  "generate_gallery_html
     \<lparr>converted_dir = Some [''notes.txt''], gallery_generated_html = None, index_html = None,
      image_list_js = None, console = []\<rparr>
   = (Inr (), \<lparr>converted_dir = Some [''notes.txt''], gallery_generated_html = None,
      index_html = None, image_list_js = None, console = [No_images_found]\<rparr>)"
proof -
  let ?w = "\<lparr>converted_dir = Some [''notes.txt''], gallery_generated_html = None, index_html = None,
      image_list_js = None, console = []\<rparr>"
  have h1: "converted_dir ?w = Some [''notes.txt'']" by simp
  have h2: "glob ''.jpg'' [''notes.txt''] = []" by (simp add: glob_def suffix_to_prefix)
  from no_images_no_output [OF h1 h2] show ?thesis by (simp add: print_def)
qed

text \<open>
  Claim C7 as stated fails. On an empty directory, with no fragment file yet, the run
  leaves no fragment file at all: no grid is rendered, in particular not the fragment
  with an "all" control, no category control and an empty grid.
\<close>

theorem zero_images_counterexample:
  "glob ''.jpg'' [] = []
   \<and> gallery_generated_html (snd (generate_gallery_html
        \<lparr>converted_dir = Some [], gallery_generated_html = None, index_html = None,
         image_list_js = None, console = []\<rparr>)) = None
   \<and> gallery_generated_html (snd (generate_gallery_html
        \<lparr>converted_dir = Some [], gallery_generated_html = None, index_html = None,
         image_list_js = None, console = []\<rparr>))
      \<noteq> Some (join ''\<newline>'' [all_button 0, filters_end, grid_start, grid_end])"
  by (simp add: generate_gallery_html_def glob_def print_def)

section \<open>Controls of empty categories\<close>

lemma category_button_other_parts:
  "category_button cat_id info count \<noteq> all_button n"
  "category_button cat_id info count \<noteq> filters_end"
  "category_button cat_id info count \<noteq> grid_start"
  "category_button cat_id info count \<noteq> grid_end"
  "category_button cat_id info count \<noteq> gallery_item c img"
  by (simp_all add: category_button_def all_button_def filters_end_def grid_start_def
        grid_end_def gallery_item_def)

lemma category_button_id:
  assumes "cat_id \<in> set (map fst CATEGORIES)" and "cat_id' \<in> set (map fst CATEGORIES)"
    and "category_button cat_id info count = category_button cat_id' info' count'"
  shows "cat_id = cat_id'"
proof -
  from assms(3) have eq: "cat_id @ ''\">\<newline>          <i class=\"bi bi-'' @ icon info @ ''\"></i> '' @ name info @ '' ('' @ str_nat count @ '')\<newline>        </button>''
     = cat_id' @ ''\">\<newline>          <i class=\"bi bi-'' @ icon info' @ ''\"></i> '' @ name info' @ '' ('' @ str_nat count' @ '')\<newline>        </button>''"
    by (simp add: category_button_def)
  from assms(1) have a: "cat_id \<in> {''members'', ''temple'', ''fuji'', ''travel'', ''accommodation'', ''local'', ''misc''}"
    by (simp add: CATEGORIES_def)
  from assms(2) have b: "cat_id' \<in> {''members'', ''temple'', ''fuji'', ''travel'', ''accommodation'', ''local'', ''misc''}"
    by (simp add: CATEGORIES_def)
  from a b eq show ?thesis by auto
qed

text \<open>
  Claim C4. For every list of images, the parts of the rendered fragment hold no filter
  control of a category of the table whose group is empty, with whatever label and count
  (so none with a zero count), while every category with a non-empty group has its
  control, showing the size of the group.
\<close>

theorem empty_category_has_no_button:
  "\<exists>categorized parts. categorize_all new_categorized images = Inr categorized
     \<and> html_parts images categorized = Inr parts
     \<and> (\<forall>cat_id \<in> set (map fst CATEGORIES). categorized cat_id = Some [] \<longrightarrow>
           (\<forall>info count. category_button cat_id info count \<notin> set parts))
     \<and> (\<forall>(cat_id, info) \<in> set CATEGORIES. \<forall>imgs. categorized cat_id = Some imgs \<and> imgs \<noteq> [] \<longrightarrow>
           category_button cat_id info (length imgs) \<in> set parts)"
proof -
  let ?cz = "\<lambda>cat_id. if cat_id \<in> set (map fst CATEGORIES) then Some (group_of images cat_id) else None"
  let ?buttons = "map (\<lambda>(cat_id, info). category_button cat_id info (length (group_of images cat_id)))
              (filter (\<lambda>(cat_id, info). group_of images cat_id \<noteq> []) CATEGORIES)"
  let ?blocks = "concat (map (\<lambda>cat_id. map (gallery_item cat_id) (group_of images cat_id))
              (map fst CATEGORIES))"
  let ?parts = "[all_button (length images)] @ ?buttons @ [filters_end, grid_start] @ ?blocks @ [grid_end]"
  have run: "categorize_all new_categorized images = Inr ?cz"
    by (rule categorize_all_groups)
  have parts: "html_parts images ?cz = Inr ?parts"
    by (rule html_parts_groups)
  have absent: "\<forall>cat_id \<in> set (map fst CATEGORIES). ?cz cat_id = Some [] \<longrightarrow>
           (\<forall>info count. category_button cat_id info count \<notin> set ?parts)"
  proof (intro ballI impI allI notI)
    fix cat_id info count
    assume key: "cat_id \<in> set (map fst CATEGORIES)" and empty: "?cz cat_id = Some []"
      and "category_button cat_id info count \<in> set ?parts"
    then have "category_button cat_id info count \<in> set ?buttons"
      using category_button_other_parts [of cat_id info count] by auto
    then obtain cat_id' info' where item: "(cat_id', info') \<in> set CATEGORIES"
      and shown: "group_of images cat_id' \<noteq> []"
      and eq: "category_button cat_id info count
               = category_button cat_id' info' (length (group_of images cat_id'))"
      by auto
    from item have key': "cat_id' \<in> set (map fst CATEGORIES)" by force
    have "cat_id = cat_id'" using category_button_id [OF key key' eq] .
    with shown empty key show False by simp
  qed
  have present: "\<forall>(cat_id, info) \<in> set CATEGORIES. \<forall>imgs. ?cz cat_id = Some imgs \<and> imgs \<noteq> [] \<longrightarrow>
           category_button cat_id info (length imgs) \<in> set ?parts"
  proof (intro ballI, clarify)
    fix cat_id info imgs
    assume item: "(cat_id, info) \<in> set CATEGORIES" and some: "?cz cat_id = Some imgs"
      and ne: "imgs \<noteq> []"
    from item have "cat_id \<in> set (map fst CATEGORIES)" by force
    with some have imgs: "imgs = group_of images cat_id" by simp
    with item ne have "category_button cat_id info (length imgs) \<in> set ?buttons"
      by force
    then show "category_button cat_id info (length imgs) \<in> set ?parts" by simp
  qed
  from run parts absent present show ?thesis by blast
qed

text \<open>
  Claim C4 at the single image \<open>fuji-1.jpg\<close>: the group of \<open>misc\<close> is empty and the
  parts hold no \<open>misc\<close> control with count zero.
\<close>

theorem empty_category_has_no_button_witness:
  "\<exists>categorized parts. categorize_all new_categorized [''fuji-1.jpg''] = Inr categorized
     \<and> html_parts [''fuji-1.jpg''] categorized = Inr parts
     \<and> categorized ''misc'' = Some []
     \<and> category_button ''misc'' (snd (CATEGORIES ! 6)) 0 \<notin> set parts"
proof -
  from empty_category_has_no_button [of "[''fuji-1.jpg'']"]
  obtain categorized parts where run: "categorize_all new_categorized [''fuji-1.jpg''] = Inr categorized"
    and parts: "html_parts [''fuji-1.jpg''] categorized = Inr parts"
    and absent: "\<forall>cat_id \<in> set (map fst CATEGORIES). categorized cat_id = Some [] \<longrightarrow>
           (\<forall>info count. category_button cat_id info count \<notin> set parts)"
    by blast
  have key: "''misc'' \<in> set (map fst CATEGORIES)" by (simp add: CATEGORIES_def)
  have c: "categorize_image ''fuji-1.jpg'' = ''fuji''" by (simp add: cat_eval)
  from run [unfolded categorize_all_groups]
  have "categorized = (\<lambda>cat_id. if cat_id \<in> set (map fst CATEGORIES)
      then Some (group_of [''fuji-1.jpg''] cat_id) else None)"
    by simp
  with key have empty: "categorized ''misc'' = Some []" by (simp add: c)
  with absent key have "category_button ''misc'' (snd (CATEGORIES ! 6)) 0 \<notin> set parts"
    by blast
  with run parts empty show ?thesis by blast
qed

section \<open>Which files the scans include\<close>

lemma upper_image_extensions:
  "map upper image_extensions = [''.JPG'', ''.JPEG'', ''.PNG'', ''.WEBP'', ''.GIF'']"
  by (simp add: image_extensions_def upper_def upper_char_def ascii_uppercase_def
        ascii_lowercase_def)

lemma set_scan_images:
  "set (scan_images entries) =
     {img \<in> set entries. \<exists>ext \<in> set image_extensions. suffix ext img \<or> suffix (upper ext) img}"
  by (auto simp: scan_images_def glob_def)

lemma listing_keeps_image_list:
  "image_list_js (fold (\<lambda>img. print (Listed_image img)) names w) = image_list_js w"
  by (induction names arbitrary: w) (simp_all add: print_def)

lemma valid_utf8_js_array: "\<forall>img \<in> set names. valid_utf8 img \<Longrightarrow> valid_utf8 (js_array names)"
proof -
  assume names: "\<forall>img \<in> set names. valid_utf8 img"
  have "valid_utf8 (concat (map (\<lambda>img. ''  '' @ [CHR 0x27] @ img @ [CHR 0x27] @ '',\<newline>'') names))"
    using names
    by (intro valid_utf8_concat)
      (auto simp: valid_utf8_Cons_ascii valid_utf8_append_valid valid_utf8_Nil)
  then show ?thesis
    by (simp add: js_array_def valid_utf8_Cons_ascii valid_utf8_append_valid valid_utf8_Nil)
qed

text \<open>
  Claim C8, as amended. On a file system with case-sensitive names, the scan of
  \<open>generate_image_list.py\<close> includes every entry whose name ends in one of the
  extensions \<open>.jpg\<close>, \<open>.jpeg\<close>, \<open>.png\<close>, \<open>.webp\<close>, \<open>.gif\<close> written all in lower
  case or all in upper case; when the names found are valid UTF-8 they are what is written
  to \<open>image_list.js\<close>, one quoted line for each. The run of \<open>generate_gallery.py\<close>
  includes every entry whose name ends in \<open>.jpg\<close>: when these names are valid UTF-8, the
  fragment it writes holds a link to each of them.
\<close>

theorem image_scan_extensions:
  \<open>(img \<in> set entries
      \<and> (\<exists>ext \<in> set [''.jpg'', ''.JPG'', ''.jpeg'', ''.JPEG'', ''.png'', ''.PNG'', ''.webp'',
                       ''.WEBP'', ''.gif'', ''.GIF'']. suffix ext img)
     \<longrightarrow> img \<in> set (image_names entries))
   \<and> (converted_dir w = Some entries \<and> (\<forall>i \<in> set (image_names entries). valid_utf8 i) \<longrightarrow>
        image_list_js (snd (generate_image_list w)) = Some (js_array (image_names entries))
        \<and> (img \<in> set (image_names entries) \<longrightarrow>
             str_in (''  '' @ [CHR 0x27] @ img @ [CHR 0x27] @ '',\<newline>'')
               (js_array (image_names entries))))
   \<and> (converted_dir w = Some entries \<and> img \<in> set entries \<and> suffix ''.jpg'' img
        \<and> (\<forall>i \<in> set entries. suffix ''.jpg'' i \<longrightarrow> valid_utf8 i) \<longrightarrow>
        (\<exists>content. gallery_generated_html (snd (generate_gallery_html w)) = Some content
           \<and> str_in (''<a href="assets/images/gallery/converted/'' @ img @ ''" class="glightbox" data-gallery="tozan-gallery">'') content))\<close>
proof (intro conjI impI)
  have "map upper image_extensions = [''.JPG'', ''.JPEG'', ''.PNG'', ''.WEBP'', ''.GIF'']"
    by (rule upper_image_extensions)
  then have up: "upper ''.jpg'' = ''.JPG''" "upper ''.jpeg'' = ''.JPEG''" "upper ''.png'' = ''.PNG''"
    "upper ''.webp'' = ''.WEBP''" "upper ''.gif'' = ''.GIF''"
    by (simp_all add: image_extensions_def)
  assume "img \<in> set entries
      \<and> (\<exists>ext \<in> set [''.jpg'', ''.JPG'', ''.jpeg'', ''.JPEG'', ''.png'', ''.PNG'', ''.webp'',
                       ''.WEBP'', ''.gif'', ''.GIF'']. suffix ext img)"
  then show "img \<in> set (image_names entries)"
    unfolding image_names_def set_sort set_scan_images
    by (auto simp: image_extensions_def up)
next
  assume h: "converted_dir w = Some entries \<and> (\<forall>i \<in> set (image_names entries). valid_utf8 i)"
  then have "write_text (js_array (image_names entries)) = Inr (js_array (image_names entries))"
    by (simp add: write_text_def valid_utf8_js_array)
  with h show "image_list_js (snd (generate_image_list w)) = Some (js_array (image_names entries))"
    by (simp add: generate_image_list_def Let_def listing_keeps_image_list print_def)
next
  assume "img \<in> set (image_names entries)"
  then have "(''  '' @ [CHR 0x27] @ img @ [CHR 0x27] @ '',\<newline>'')
      \<in> set (map (\<lambda>img. ''  '' @ [CHR 0x27] @ img @ [CHR 0x27] @ '',\<newline>'') (image_names entries))"
    by force
  then obtain a b where "map (\<lambda>img. ''  '' @ [CHR 0x27] @ img @ [CHR 0x27] @ '',\<newline>'') (image_names entries)
      = a @ (''  '' @ [CHR 0x27] @ img @ [CHR 0x27] @ '',\<newline>'') # b"
    by (meson split_list)
  then have "js_array (image_names entries)
      = (''const ACTUAL_IMAGES = [\<newline>'' @ concat a)
        @ (''  '' @ [CHR 0x27] @ img @ [CHR 0x27] @ '',\<newline>'') @ (concat b @ ''];'')"
    by (simp add: js_array_def)
  then have "sublist (''  '' @ [CHR 0x27] @ img @ [CHR 0x27] @ '',\<newline>'')
      (js_array (image_names entries))"
    unfolding sublist_def by blast
  then show "str_in (''  '' @ [CHR 0x27] @ img @ [CHR 0x27] @ '',\<newline>'')
               (js_array (image_names entries))"
    by (simp only: str_in_iff_sublist)
next
  assume h: "converted_dir w = Some entries \<and> img \<in> set entries \<and> suffix ''.jpg'' img
        \<and> (\<forall>i \<in> set entries. suffix ''.jpg'' i \<longrightarrow> valid_utf8 i)"
  define images where "images = sort (glob ''.jpg'' entries)"
  from h have img: "img \<in> set images" by (simp add: images_def glob_def)
  then have ne: "images \<noteq> []" by auto
  from h have valid: "\<forall>i \<in> set images. valid_utf8 i" by (simp add: images_def glob_def)
  let ?parts = "[all_button (length images)]
          @ map (\<lambda>(cat_id, info). category_button cat_id info (length (group_of images cat_id)))
              (filter (\<lambda>(cat_id, info). group_of images cat_id \<noteq> []) CATEGORIES)
          @ [filters_end, grid_start]
          @ concat (map (\<lambda>cat_id. map (gallery_item cat_id) (group_of images cat_id))
              (map fst CATEGORIES))
          @ [grid_end]"
  from h generate_gallery_html_writes [OF _ images_def ne valid, of w]
  have written: "gallery_generated_html (snd (generate_gallery_html w)) =
      Some (join ''\<newline>'' ?parts)" by blast
  have "gallery_item (categorize_image img) img \<in> set ?parts"
    using img by (rule gallery_item_in_parts)
  then have "sublist (gallery_item (categorize_image img) img) (join ''\<newline>'' ?parts)"
    by (rule sublist_join)
  moreover have \<open>sublist (''<a href="assets/images/gallery/converted/'' @ img @ ''" class="glightbox" data-gallery="tozan-gallery">'')
      (gallery_item (categorize_image img) img)\<close>
  proof -
    have \<open>gallery_item (categorize_image img) img =
      (''        <div class="gallery-item" data-category="'' @ categorize_image img
        @ ''">\<newline>          '')
      @ (''<a href="assets/images/gallery/converted/'' @ img @ ''" class="glightbox" data-gallery="tozan-gallery">'')
      @ (''\<newline>            <img src="'' @ as_posix img @ ''" alt="'' @ alt_text img @ ''" loading="lazy" />\<newline>            <div class="gallery-overlay">\<newline>              <i class="bi bi-zoom-in"></i>\<newline>            </div>\<newline>          </a>\<newline>        </div>\<newline>'')\<close>
      by (simp add: gallery_item_def as_posix_def)
    then show ?thesis unfolding sublist_def by blast
  qed
  ultimately have \<open>sublist (''<a href="assets/images/gallery/converted/'' @ img @ ''" class="glightbox" data-gallery="tozan-gallery">'') (join ''\<newline>'' ?parts)\<close>
    by (rule sublist_order.order_trans [rotated])
  with written show \<open>\<exists>content. gallery_generated_html (snd (generate_gallery_html w)) = Some content
           \<and> str_in (''<a href="assets/images/gallery/converted/'' @ img @ ''" class="glightbox" data-gallery="tozan-gallery">'') content\<close>
    by (simp only: str_in_iff_sublist) blast
qed

text \<open>The amended claim C8 at the entries \<open>a.JPG\<close> and \<open>b.jpg\<close>.\<close>

theorem image_scan_extensions_witness:
  \<open>suffix ''.JPG'' ''a.JPG''
   \<and> ''a.JPG'' \<in> set (image_names [''a.JPG'', ''c.Jpg''])
   \<and> image_list_js (snd (generate_image_list
         \<lparr>converted_dir = Some [''a.JPG'', ''c.Jpg''], gallery_generated_html = None,
          index_html = None, image_list_js = None, console = []\<rparr>))
       = Some (js_array (image_names [''a.JPG'', ''c.Jpg'']))
   \<and> str_in (''  '' @ [CHR 0x27] @ ''a.JPG'' @ [CHR 0x27] @ '',\<newline>'')
        (js_array (image_names [''a.JPG'', ''c.Jpg'']))
   \<and> (\<exists>content. gallery_generated_html (snd (generate_gallery_html
         \<lparr>converted_dir = Some [''b.jpg''], gallery_generated_html = None,
          index_html = None, image_list_js = None, console = []\<rparr>)) = Some content
        \<and> str_in (''<a href="assets/images/gallery/converted/b.jpg" class="glightbox" data-gallery="tozan-gallery">'') content)\<close>
proof -
  let ?w = "\<lparr>converted_dir = Some [''a.JPG'', ''c.Jpg''], gallery_generated_html = None,
          index_html = None, image_list_js = None, console = []\<rparr>"
  let ?v = "\<lparr>converted_dir = Some [''b.jpg''], gallery_generated_html = None,
          index_html = None, image_list_js = None, console = []\<rparr>"
  have a: "suffix ''.JPG'' ''a.JPG''" by (simp add: suffix_to_prefix)
  then have 1: "''a.JPG'' \<in> set (image_names [''a.JPG'', ''c.Jpg''])"
    using image_scan_extensions [of "''a.JPG''" "[''a.JPG'', ''c.Jpg'']" ?w] by simp
  have names: "image_names [''a.JPG'', ''c.Jpg''] = [''a.JPG'']"
    by (simp add: image_names_def scan_images_def glob_def image_extensions_def suffix_to_prefix
          upper_def upper_char_def ascii_uppercase_def ascii_lowercase_def)
  have valid: "\<forall>i \<in> set (image_names [''a.JPG'', ''c.Jpg'']). valid_utf8 i"
    unfolding names by (simp add: valid_utf8_def)
  have h: "converted_dir ?w = Some [''a.JPG'', ''c.Jpg'']" by simp
  from image_scan_extensions [of "''a.JPG''" "[''a.JPG'', ''c.Jpg'']" ?w] h valid 1
  have 2: "image_list_js (snd (generate_image_list ?w))
       = Some (js_array (image_names [''a.JPG'', ''c.Jpg'']))"
    and 3: "str_in (''  '' @ [CHR 0x27] @ ''a.JPG'' @ [CHR 0x27] @ '',\<newline>'')
        (js_array (image_names [''a.JPG'', ''c.Jpg'']))"
    by blast+
  have b: "converted_dir ?v = Some [''b.jpg''] \<and> ''b.jpg'' \<in> set [''b.jpg''] \<and> suffix ''.jpg'' ''b.jpg''
        \<and> (\<forall>i \<in> set [''b.jpg'']. suffix ''.jpg'' i \<longrightarrow> valid_utf8 i)"
    by (simp add: suffix_to_prefix valid_utf8_def)
  from image_scan_extensions [of "''b.jpg''" "[''b.jpg'']" ?v] b
  have 4: \<open>\<exists>content. gallery_generated_html (snd (generate_gallery_html ?v)) = Some content
        \<and> str_in (''<a href="assets/images/gallery/converted/b.jpg" class="glightbox" data-gallery="tozan-gallery">'') content\<close>
    by (simp only: append.simps) blast
  from a 1 2 3 4 show ?thesis by blast
qed

text \<open>
  Claim C8 as stated fails. The extension of \<open>photo.Jpg\<close> is \<open>.jpg\<close> in a mix of
  upper and lower case, and \<open>generate_image_list.py\<close> run on a directory that holds it
  writes an empty list; the extension of \<open>photo.png\<close> is in the list, and
  \<open>generate_gallery.py\<close> run on a directory that holds it finds no images and writes
  nothing.
\<close>

theorem case_insensitive_scan_counterexample:
  "suffix ''.jpg'' (lower ''photo.Jpg'')
   \<and> image_list_js (snd (generate_image_list
         \<lparr>converted_dir = Some [''photo.Jpg''], gallery_generated_html = None,
          index_html = None, image_list_js = None, console = []\<rparr>))
       = Some ''const ACTUAL_IMAGES = [\<newline>];''
   \<and> suffix ''.png'' (lower ''photo.png'')
   \<and> generate_gallery_html
         \<lparr>converted_dir = Some [''photo.png''], gallery_generated_html = None,
          index_html = None, image_list_js = None, console = []\<rparr>
       = (Inr (), \<lparr>converted_dir = Some [''photo.png''], gallery_generated_html = None,
          index_html = None, image_list_js = None, console = [No_images_found]\<rparr>)"
  by (simp add: generate_image_list_def generate_gallery_html_def image_names_def scan_images_def
        image_extensions_def glob_def suffix_to_prefix js_array_def write_text_def valid_utf8_def
        print_def Let_def
        lower_def lower_char_def upper_def upper_char_def ascii_uppercase_def ascii_lowercase_def)

section \<open>The splice and a document without markers\<close>

lemma find_from_ge: "find_from i s sub \<noteq> - 1 \<Longrightarrow> int i \<le> find_from i s sub"
  by (induction i s sub rule: find_from.induct) (auto split: if_splits)






end
